theory Spec2Isabelle
  imports Main "HOL-Library.Sublist" "HOL-Library.List_Lexorder" "HOL-Library.Char_ord"
begin

section \<open>Errors\<close>

text \<open>
  Go errors are values.  The sentinels of package \<open>io/fs\<close> and the errno values
  the operating system reports are constructors; \<open>PathError\<close> is the
  \<open>*fs.PathError\<close> that an \<open>os\<close> call wraps its errno in (\<open>LinkError\<close> for
  a call with two paths); \<open>Wrapped\<close> is
  what \<open>fmt.Errorf\<close> builds with the verb \<open>%w\<close>; \<open>ErrorString\<close> is
  \<open>errors.New\<close> and \<open>fmt.Errorf\<close> without \<open>%w\<close>; \<open>OcflCode\<close> stands for
  the package-level values \<open>ErrE003\<close>, \<open>ErrE007\<close>, \<open>ErrE034\<close>;
  \<open>ValidationErr\<close> is \<open>NewErr(code, nil)\<close> of the streaming validator.
\<close>

datatype vcode =
    InvIDErr | InvTypeErr | InvDigestErr | InvNoManErr | InvNoVerErr
  | VerFormatErr | ManDigestErr | ManPathErr | ContentChecksumErr | CtxCanceledErr

datatype error =
    ErrNotExist
  | ErrExist
  | ErrPermission
  | ErrInvalid
  | ErrNotDir
  | ErrIsDir
  | PathError string string error
  | LinkError string string string error
  | Wrapped string error
  | ErrorString string
  | OcflCode string
  | ValidationErr vcode

text \<open>\<open>errors.Is(err, target)\<close>: equality along the chain of \<open>Unwrap\<close>.\<close>

fun errors_Is :: "error \<Rightarrow> error \<Rightarrow> bool" where
  "errors_Is (PathError op p e) t = (PathError op p e = t \<or> errors_Is e t)"
| "errors_Is (LinkError op p q e) t = (LinkError op p q e = t \<or> errors_Is e t)"
| "errors_Is (Wrapped m e) t = (Wrapped m e = t \<or> errors_Is e t)"
| "errors_Is e t = (e = t)"

text \<open>
  \<open>os.IsNotExist(err)\<close> looks through one \<open>*PathError\<close> or \<open>*LinkError\<close> only (it predates
  \<open>%w\<close>), and is false for the nil error.
\<close>

fun underlyingError :: "error \<Rightarrow> error" where
  "underlyingError (PathError op p e) = e"
| "underlyingError (LinkError op p q e) = e"
| "underlyingError e = e"

definition os_IsNotExist :: "error option \<Rightarrow> bool" where
  "os_IsNotExist err = (case err of None \<Rightarrow> False | Some e \<Rightarrow> underlyingError e = ErrNotExist)"

definition ErrE003 :: error where "ErrE003 = OcflCode ''E003''"
definition ErrE007 :: error where "ErrE007 = OcflCode ''E007''"
definition ErrE034 :: error where "ErrE034 = OcflCode ''E034''"

definition NewErr :: "vcode \<Rightarrow> error" where
  "NewErr c = ValidationErr c"

section \<open>Content maps and the inventory\<close>

type_synonym Digest = string
type_synonym Path = string

text \<open>
  A Go map from digests to paths, as an association list in iteration order; the Go
  value may also be the nil map, which is \<open>None\<close> where the code tests for it.
\<close>

type_synonym cmap = "(Digest \<times> Path list) list"

record User =
  Name :: string
  Address :: string

record Version =
  State :: "cmap option"
  Created :: nat
  Message :: string
  User :: User

record Inventory =
  ID :: string
  Type :: string
  DigestAlgorithm :: string
  Head :: string
  ContentDirectory :: string
  Manifest :: "cmap option"
  Versions :: "(string \<times> Version) list option"
  Fixity :: "(string \<times> cmap option) list"

text \<open>Reading a Go map: the nil map reads as the empty one.\<close>

definition entries :: "'a list option \<Rightarrow> 'a list" where
  "entries m = (case m of None \<Rightarrow> [] | Some xs \<Rightarrow> xs)"

text \<open>
  Modelled from the spec: \<open>GetDigest\<close> (the content map's lookup of a digest by path,
  \<open>getDigest(p)\<close> of section 4.B) is not among the sources.  Its callers compare the
  result with the empty string, which is what it returns for an unbound path.
\<close>

fun GetDigest :: "cmap \<Rightarrow> Path \<Rightarrow> Digest" where
  "GetDigest [] p = ''''"
| "GetDigest ((d, ps) # m) p = (if p \<in> set ps then d else GetDigest m p)"

text \<open>
  Modelled from the spec: \<open>LenDigest\<close> (\<open>lenDigest(d)\<close> of section 4.B), the number
  of paths bound to a digest, is not among the sources.
\<close>

definition LenDigest :: "cmap \<Rightarrow> Digest \<Rightarrow> nat" where
  "LenDigest m d = (case map_of m d of None \<Rightarrow> 0 | Some ps \<Rightarrow> length ps)"

definition in_state :: "cmap \<Rightarrow> Path \<Rightarrow> bool" where
  "in_state m p = (\<exists>(d, ps) \<in> set m. p \<in> set ps)"

text \<open>
  Invariant CM-1 of the data model: a path is bound under at most one digest.  With it
  the digest a state binds a path to is unique, whatever order the map is walked in.
\<close>

definition bound_to :: "cmap \<Rightarrow> Path \<Rightarrow> Digest \<Rightarrow> bool" where
  "bound_to m p d = (\<exists>(d', ps) \<in> set m. d' = d \<and> p \<in> set ps)"

definition CM1 :: "cmap \<Rightarrow> bool" where
  "CM1 m = (\<forall>p d d'. bound_to m p d \<and> bound_to m p d' \<longrightarrow> d = d')"

text \<open>
  A file holds bytes, or the JSON document of an inventory: the JSON encoder and parser
  are not among the sources, so a document is kept as the inventory it encodes.
\<close>

datatype content = Bytes string | InventoryDoc Inventory

section \<open>Paths (package path/filepath where the separator is the slash)\<close>

text \<open>\<open>strings.Split(p, "/")\<close> and \<open>strings.Join(elems, "/")\<close>.\<close>

fun split_slash :: "string \<Rightarrow> string list" where
  "split_slash [] = [[]]"
| "split_slash (c # cs) =
     (if c = CHR ''/'' then [] # split_slash cs
      else (case split_slash cs of [] \<Rightarrow> [[c]] | x # xs \<Rightarrow> (c # x) # xs))"

fun join_slash :: "string list \<Rightarrow> string" where
  "join_slash [] = []"
| "join_slash [x] = x"
| "join_slash (x # y # ys) = x @ CHR ''/'' # join_slash (y # ys)"

text \<open>
  \<open>filepath.Clean\<close>, on the elements of the path: empty elements and \<open>.\<close> are
  dropped, \<open>..\<close> removes the element before it, is dropped at the root and kept at
  the start of a relative path.  \<open>out\<close> is the result so far, last element first.
\<close>

fun clean_elems :: "bool \<Rightarrow> string list \<Rightarrow> string list \<Rightarrow> string list" where
  "clean_elems rooted out [] = rev out"
| "clean_elems rooted out (c # cs) =
     (if c = [] \<or> c = ''.'' then clean_elems rooted out cs
      else if c = ''..'' then
        (case out of
           [] \<Rightarrow> if rooted then clean_elems rooted [] cs else clean_elems rooted [''..''] cs
         | x # xs \<Rightarrow>
             if x = ''..'' then clean_elems rooted (''..'' # out) cs
             else clean_elems rooted xs cs)
      else clean_elems rooted (c # out) cs)"

definition IsAbs :: "string \<Rightarrow> bool" where
  "IsAbs p = (case p of [] \<Rightarrow> False | c # cs \<Rightarrow> c = CHR ''/'')"

definition Clean :: "string \<Rightarrow> string" where
  "Clean p =
     (if p = [] then ''.''
      else
        (let out = clean_elems (IsAbs p) [] (split_slash p) in
         if IsAbs p then CHR ''/'' # join_slash out
         else if out = [] then ''.''
         else join_slash out))"

text \<open>
  \<open>filepath.Join\<close>: leading empty elements are ignored, the rest is joined with
  slashes and cleaned; the result is empty when every element is.
\<close>

definition Join :: "string list \<Rightarrow> string" where
  "Join elem =
     (case dropWhile (\<lambda>e. e = []) elem of
        [] \<Rightarrow> []
      | e # es \<Rightarrow> Clean (join_slash (e # es)))"

text \<open>\<open>filepath.Dir\<close>: the path up to its last slash, cleaned.\<close>

definition Dir :: "string \<Rightarrow> string" where
  "Dir p = Clean (rev (dropWhile (\<lambda>c. c \<noteq> CHR ''/'') (rev p)))"

text \<open>
  \<open>filepath.Rel\<close>: both paths are cleaned; a rooted and an unrooted path have no
  relative path between them; the common leading elements are dropped; what is left of
  the base is climbed with \<open>..\<close> (an error when the first differing base element is
  itself \<open>..\<close>), and what is left of the target is appended.
\<close>

definition path_elems :: "string \<Rightarrow> string list" where
  "path_elems p = (if p = [] then [] else if p = ''/'' then [[]] else split_slash p)"

fun drop_common :: "string list \<Rightarrow> string list \<Rightarrow> string list \<times> string list" where
  "drop_common (b # bs) (t # ts) = (if b = t then drop_common bs ts else (b # bs, t # ts))"
| "drop_common bs ts = (bs, ts)"

definition Rel :: "string \<Rightarrow> string \<Rightarrow> error + string" where
  "Rel basepath targpath =
     (let base = Clean basepath; targ = Clean targpath in
      if targ = base then Inr ''.''
      else
        (let base' = (if base = ''.'' then [] else base) in
         if IsAbs base' \<noteq> IsAbs targ
         then Inl (ErrorString (''Rel: can't make '' @ targpath @ '' relative to '' @ basepath))
         else
           (case drop_common (path_elems base') (path_elems targ) of
              ([], ts) \<Rightarrow> Inr (join_slash ts)
            | (b # bs, ts) \<Rightarrow>
                if b = ''..'' \<and> ts \<noteq> []
                then Inl (ErrorString (''Rel: can't make '' @ targpath @ '' relative to '' @ basepath))
                else Inr (join_slash (map (\<lambda>_. ''..'') (b # bs) @ ts)))))"

text \<open>Whether path \<open>k\<close> is directory \<open>d\<close> or lies below it (both cleaned).\<close>

definition slashed :: "string \<Rightarrow> string" where
  "slashed d = (if d = ''/'' then d else d @ ''/'')"

definition under :: "string \<Rightarrow> string \<Rightarrow> bool" where
  "under d k = (k = d \<or> prefix (slashed d) k)"

section \<open>The filesystem the stage works on (packages os and io/ioutil)\<close>

text \<open>
  A node is a directory, a regular file (with whether its content can be read) or
  something else (a symbolic link, a device).
\<close>

datatype node = Directory | RegularFile bool content | Irregular

text \<open>
  The world outside the program: the process working directory; the nodes, keyed by
  cleaned absolute path (the root \<open>/\<close> among them, every node below a directory);
  injected faults, the errno that any system call naming that path fails with; the
  random suffixes \<open>ioutil.TempDir\<close> draws; the clock; and the hash functions, which
  are external to the library.
\<close>

record World =
  cwd :: string
  nodes :: "(string \<times> node) list"
  faults :: "(string \<times> error) list"
  tempnames :: "string list"
  clock :: nat
  hash_of :: "string \<Rightarrow> content \<Rightarrow> string"

definition abspath :: "World \<Rightarrow> string \<Rightarrow> string" where
  "abspath w p = (if IsAbs p then Clean p else Join [cwd w, p])"

text \<open>The error every system call gives before it looks at the nodes.\<close>

definition fault_of :: "World \<Rightarrow> string \<Rightarrow> error option" where
  "fault_of w p = (if p = [] then Some ErrNotExist else map_of (faults w) (abspath w p))"

definition node_at :: "World \<Rightarrow> string \<Rightarrow> node option" where
  "node_at w p = map_of (nodes w) (abspath w p)"

text \<open>
  \<open>parents\<close> lists the proper ancestors a path names, nearest first.  A path that
  runs through something that is not a directory cannot be resolved: the system call
  fails with \<open>ENOTDIR\<close>, where a path with a missing element fails with \<open>ENOENT\<close>.
\<close>

fun parents :: "string \<Rightarrow> string \<Rightarrow> string list" where
  "parents seen [] = []"
| "parents seen (c # cs) =
     (if c = CHR ''/'' \<and> seen \<noteq> [] then parents (seen @ [c]) cs @ [seen]
      else parents (seen @ [c]) cs)"

definition through_file :: "World \<Rightarrow> string \<Rightarrow> bool" where
  "through_file w name =
     list_ex (\<lambda>a. case map_of (nodes w) a of None \<Rightarrow> False | Some n \<Rightarrow> n \<noteq> Directory)
       (parents [] (abspath w name))"

definition missing_err :: "World \<Rightarrow> string \<Rightarrow> error" where
  "missing_err w name = (if through_file w name then ErrNotDir else ErrNotExist)"

text \<open>\<open>os.Stat(name)\<close> (and \<open>os.Lstat\<close>: the world has no symbolic links to follow).\<close>

definition os_Stat :: "World \<Rightarrow> string \<Rightarrow> error + node" where
  "os_Stat w name =
     (case fault_of w name of
        Some e \<Rightarrow> Inl (PathError ''stat'' name e)
      | None \<Rightarrow>
          (case node_at w name of
             None \<Rightarrow> Inl (PathError ''stat'' name (missing_err w name))
           | Some n \<Rightarrow> Inr n))"

definition stat_err :: "error + node \<Rightarrow> error option" where
  "stat_err r = (case r of Inl e \<Rightarrow> Some e | Inr n \<Rightarrow> None)"

text \<open>Adding, replacing and removing the node at an absolute path.\<close>

definition put_node :: "string \<Rightarrow> node \<Rightarrow> (string \<times> node) list \<Rightarrow> (string \<times> node) list" where
  "put_node k n ns = filter (\<lambda>(k', _). k' \<noteq> k) ns @ [(k, n)]"

definition del_node :: "string \<Rightarrow> (string \<times> node) list \<Rightarrow> (string \<times> node) list" where
  "del_node k ns = filter (\<lambda>(k', _). k' \<noteq> k) ns"

text \<open>The error of creating an entry at \<open>name\<close>, from the state of its parent.\<close>

definition parent_err :: "World \<Rightarrow> string \<Rightarrow> error option" where
  "parent_err w name =
     (case map_of (nodes w) (Dir (abspath w name)) of
        None \<Rightarrow> Some (missing_err w name)
      | Some Directory \<Rightarrow> None
      | Some _ \<Rightarrow> Some ErrNotDir)"

definition os_Mkdir :: "World \<Rightarrow> string \<Rightarrow> error option \<times> World" where
  "os_Mkdir w name =
     (case fault_of w name of
        Some e \<Rightarrow> (Some (PathError ''mkdir'' name e), w)
      | None \<Rightarrow>
          (case node_at w name of
             Some _ \<Rightarrow> (Some (PathError ''mkdir'' name ErrExist), w)
           | None \<Rightarrow>
               (case parent_err w name of
                  Some e \<Rightarrow> (Some (PathError ''mkdir'' name e), w)
                | None \<Rightarrow> (None, w\<lparr>nodes := put_node (abspath w name) Directory (nodes w)\<rparr>))))"

text \<open>
  \<open>os.MkdirAll\<close>: nothing to do when the path is a directory; otherwise the parent
  (the path up to its last slash) is made first, then the directory itself.
\<close>

fun mkdir_chain :: "World \<Rightarrow> string list \<Rightarrow> error option \<times> World" where
  "mkdir_chain w [] = (None, w)"
| "mkdir_chain w (p # ps) =
     (case os_Stat w p of
        Inr n \<Rightarrow> if n = Directory then (None, w) else (Some (PathError ''mkdir'' p ErrNotDir), w)
      | Inl _ \<Rightarrow>
          (case mkdir_chain w ps of
             (Some e, w') \<Rightarrow> (Some e, w')
           | (None, w') \<Rightarrow>
               (case os_Mkdir w' p of
                  (None, w'') \<Rightarrow> (None, w'')
                | (Some e, w'') \<Rightarrow>
                    (case os_Stat w'' p of
                       Inr Directory \<Rightarrow> (None, w'')
                     | _ \<Rightarrow> (Some e, w'')))))"

definition os_MkdirAll :: "World \<Rightarrow> string \<Rightarrow> error option \<times> World" where
  "os_MkdirAll w path = mkdir_chain w (path # parents [] path)"

text \<open>
  \<open>ioutil.TempDir(dir, pattern)\<close>, which is \<open>os.MkdirTemp\<close>: a new directory
  whose name is \<open>dir\<close>, a separator unless \<open>dir\<close> ends in one, and the pattern with
  its last \<open>*\<close> replaced by a random string (appended when the pattern has none).
  The name is tried with the next random string while it is taken, and returned as
  built, not cleaned.  An empty \<open>dir\<close> stands for \<open>os.TempDir()\<close>, which is
  \<open>/tmp\<close> when the environment names no other directory.
\<close>

definition os_TempDir :: string where
  "os_TempDir = ''/tmp''"

definition prefixAndSuffix :: "string \<Rightarrow> error + string \<times> string" where
  "prefixAndSuffix pattern =
     (if CHR ''/'' \<in> set pattern then Inl (ErrorString ''pattern contains path separator'')
      else if CHR ''*'' \<in> set pattern then
        Inr (rev (tl (dropWhile (\<lambda>c. c \<noteq> CHR ''*'') (rev pattern))),
             rev (takeWhile (\<lambda>c. c \<noteq> CHR ''*'') (rev pattern)))
      else Inr (pattern, []))"

definition joinPath :: "string \<Rightarrow> string \<Rightarrow> string" where
  "joinPath dir name =
     (if dir \<noteq> [] \<and> last dir = CHR ''/'' then dir @ name else dir @ ''/'' @ name)"

fun temp_dir ::
  "World \<Rightarrow> string \<Rightarrow> string \<Rightarrow> string \<Rightarrow> string list \<Rightarrow> (error + string) \<times> World" where
  "temp_dir w dir pfx sfx [] =
     (Inl (PathError ''mkdirtemp'' (dir @ ''/'' @ pfx @ ''*'' @ sfx) ErrExist), w)"
| "temp_dir w dir pfx sfx (r # rs) =
     (let name = pfx @ r @ sfx; w1 = w\<lparr>tempnames := rs\<rparr> in
      case os_Mkdir w1 name of
        (None, w2) \<Rightarrow> (Inr name, w2)
      | (Some e, w2) \<Rightarrow>
          if underlyingError e = ErrExist then temp_dir w1 dir pfx sfx rs
          else
            (case stat_err (os_Stat w2 dir) of
               Some e' \<Rightarrow>
                 if os_IsNotExist (Some e) \<and> os_IsNotExist (Some e') then (Inl e', w2)
                 else (Inl e, w2)
             | None \<Rightarrow> (Inl e, w2)))"

definition ioutil_TempDir :: "World \<Rightarrow> string \<Rightarrow> string \<Rightarrow> (error + string) \<times> World" where
  "ioutil_TempDir w dir pattern =
     (let dir' = (if dir = [] then os_TempDir else dir) in
      case prefixAndSuffix pattern of
        Inl e \<Rightarrow> (Inl (PathError ''mkdirtemp'' pattern e), w)
      | Inr (pfx, sfx) \<Rightarrow> temp_dir w dir' (joinPath dir' pfx) sfx (tempnames w))"

text \<open>
  \<open>os.OpenFile(name, os.O_RDWR|os.O_CREATE, perm)\<close>: an existing regular file is
  opened, a missing one is created empty when its parent is a directory.  The handle
  is the name it was opened under.
\<close>

datatype os_File = OsFile string

definition os_OpenFile :: "World \<Rightarrow> string \<Rightarrow> (os_File option \<times> error option) \<times> World" where
  "os_OpenFile w name =
     (case fault_of w name of
        Some e \<Rightarrow> ((None, Some (PathError ''open'' name e)), w)
      | None \<Rightarrow>
          (case node_at w name of
             Some Directory \<Rightarrow> ((None, Some (PathError ''open'' name ErrIsDir)), w)
           | Some (RegularFile False c) \<Rightarrow> ((None, Some (PathError ''open'' name ErrPermission)), w)
           | Some _ \<Rightarrow> ((Some (OsFile name), None), w)
           | None \<Rightarrow>
               (case parent_err w name of
                  Some e \<Rightarrow> ((None, Some (PathError ''open'' name e)), w)
                | None \<Rightarrow>
                    ((Some (OsFile name), None),
                     w\<lparr>nodes := put_node (abspath w name) (RegularFile True (Bytes [])) (nodes w)\<rparr>))))"

text \<open>
  \<open>rename(2)\<close>: the old path must exist and the new path's parent be a directory;
  renaming a path to itself does nothing; a directory cannot move below itself,
  replaces only an empty directory, and a file does not replace a directory.  The node
  moves with everything below it.
\<close>

definition has_children :: "World \<Rightarrow> string \<Rightarrow> bool" where
  "has_children w k = (\<exists>(k', n) \<in> set (nodes w). k' \<noteq> k \<and> under k k')"

definition rekey :: "string \<Rightarrow> string \<Rightarrow> string \<Rightarrow> string" where
  "rekey src dst k =
     (if k = src then dst
      else if prefix (slashed src) k then slashed dst @ drop (length (slashed src)) k
      else k)"

definition move_nodes :: "string \<Rightarrow> string \<Rightarrow> (string \<times> node) list \<Rightarrow> (string \<times> node) list" where
  "move_nodes src dst ns =
     map (\<lambda>(k, n). (rekey src dst k, n)) (filter (\<lambda>(k, n). \<not> under dst k) ns)"

definition rename_err :: "World \<Rightarrow> string \<Rightarrow> string \<Rightarrow> error option" where
  "rename_err w oldpath newpath =
     (let src = abspath w oldpath; dst = abspath w newpath in
      case fault_of w oldpath of
        Some e \<Rightarrow> Some e
      | None \<Rightarrow>
          (case fault_of w newpath of
             Some e \<Rightarrow> Some e
           | None \<Rightarrow>
               (case node_at w oldpath of
                  None \<Rightarrow> Some (missing_err w oldpath)
                | Some n \<Rightarrow>
                    (case parent_err w newpath of
                       Some e \<Rightarrow> Some e
                     | None \<Rightarrow>
                         if src = dst then None
                         else if under src dst then Some ErrInvalid
                         else
                           (case node_at w newpath of
                              None \<Rightarrow> None
                            | Some Directory \<Rightarrow>
                                if n \<noteq> Directory then Some ErrIsDir
                                else if has_children w dst then Some ErrExist
                                else None
                            | Some _ \<Rightarrow> if n = Directory then Some ErrNotDir else None)))))"

definition syscall_Rename :: "World \<Rightarrow> string \<Rightarrow> string \<Rightarrow> error option \<times> World" where
  "syscall_Rename w oldpath newpath =
     (case rename_err w oldpath newpath of
        Some e \<Rightarrow> (Some e, w)
      | None \<Rightarrow>
          if abspath w oldpath = abspath w newpath then (None, w)
          else (None, w\<lparr>nodes := move_nodes (abspath w oldpath) (abspath w newpath) (nodes w)\<rparr>))"

text \<open>
  \<open>os.Rename(oldpath, newpath)\<close>.  Before the system call, \<open>os.Rename\<close> looks at
  the new path: when that is a directory, the call is refused with \<open>EEXIST\<close> (with
  the error of \<open>Lstat(oldpath)\<close>, taken out of its \<open>*PathError\<close>, when there is
  one), unless the two names are different names of one file.  Every error is
  returned in a \<open>*LinkError\<close>.
\<close>

definition rename_refused :: "World \<Rightarrow> string \<Rightarrow> string \<Rightarrow> error option" where
  "rename_refused w oldpath newpath =
     (case os_Stat w newpath of
        Inr Directory \<Rightarrow>
          (case os_Stat w oldpath of
             Inl err \<Rightarrow> Some (case err of PathError op p e \<Rightarrow> e | _ \<Rightarrow> err)
           | Inr n \<Rightarrow>
               if newpath = oldpath \<or> abspath w newpath \<noteq> abspath w oldpath then Some ErrExist
               else None)
      | _ \<Rightarrow> None)"

definition os_Rename :: "World \<Rightarrow> string \<Rightarrow> string \<Rightarrow> error option \<times> World" where
  "os_Rename w oldpath newpath =
     (case rename_refused w oldpath newpath of
        Some e \<Rightarrow> (Some (LinkError ''rename'' oldpath newpath e), w)
      | None \<Rightarrow>
          (case syscall_Rename w oldpath newpath of
             (Some e, w') \<Rightarrow> (Some (LinkError ''rename'' oldpath newpath e), w')
           | (None, w') \<Rightarrow> (None, w')))"

text \<open>\<open>os.Remove(name)\<close>: removes a file or an empty directory.\<close>

definition os_Remove :: "World \<Rightarrow> string \<Rightarrow> error option \<times> World" where
  "os_Remove w name =
     (case fault_of w name of
        Some e \<Rightarrow> (Some (PathError ''remove'' name e), w)
      | None \<Rightarrow>
          (case node_at w name of
             None \<Rightarrow> (Some (PathError ''remove'' name (missing_err w name)), w)
           | Some n \<Rightarrow>
               if n = Directory \<and> has_children w (abspath w name)
               then (Some (PathError ''remove'' name ErrExist), w)
               else (None, w\<lparr>nodes := del_node (abspath w name) (nodes w)\<rparr>)))"

text \<open>\<open>os.RemoveAll(path)\<close>: removes the path and everything below it; a missing path is no error.\<close>

definition os_RemoveAll :: "World \<Rightarrow> string \<Rightarrow> error option \<times> World" where
  "os_RemoveAll w path =
     (if path = [] then (None, w)
      else
        (case map_of (faults w) (abspath w path) of
           Some e \<Rightarrow> (Some (PathError ''unlinkat'' path e), w)
         | None \<Rightarrow>
             (None, w\<lparr>nodes := filter (\<lambda>(k, n). \<not> under (abspath w path) k) (nodes w)\<rparr>)))"

text \<open>
  \<open>ioutil.ReadDir(dirname)\<close>: the entries of a directory, as names with their nodes.
\<close>

definition entry_name :: "string \<Rightarrow> string \<Rightarrow> string option" where
  "entry_name d k =
     (if k \<noteq> d \<and> under d k \<and> CHR ''/'' \<notin> set (drop (length (slashed d)) k)
      then Some (drop (length (slashed d)) k) else None)"

definition dir_entries :: "World \<Rightarrow> string \<Rightarrow> (string \<times> node) list" where
  "dir_entries w d =
     List.map_filter (\<lambda>(k, n). map_option (\<lambda>nm. (nm, n)) (entry_name d k)) (nodes w)"

definition ioutil_ReadDir :: "World \<Rightarrow> string \<Rightarrow> error + (string \<times> node) list" where
  "ioutil_ReadDir w dirname =
     (case fault_of w dirname of
        Some e \<Rightarrow> Inl (PathError ''open'' dirname e)
      | None \<Rightarrow>
          (case node_at w dirname of
             None \<Rightarrow> Inl (PathError ''open'' dirname (missing_err w dirname))
           | Some Directory \<Rightarrow> Inr (dir_entries w (abspath w dirname))
           | Some _ \<Rightarrow> Inl (PathError ''readdirent'' dirname ErrNotDir)))"

text \<open>
  \<open>filepath.Walk(root, fn)\<close>.  The walk calls \<open>fn(path, info, err)\<close> on the root
  and on everything below it, directories before their entries and the entries of a
  directory in lexical order of their names; a path whose \<open>lstat\<close> fails is passed
  with the error and not entered.  The walk stops at the first call of \<open>fn\<close> that
  returns an error, and returns it.  (None of the walk functions of this library
  returns \<open>filepath.SkipDir\<close>.)
\<close>

type_synonym visit = "string \<times> node option \<times> error option"

definition lstat_visit :: "World \<Rightarrow> string \<Rightarrow> visit" where
  "lstat_visit w p =
     (case os_Stat w p of
        Inl e \<Rightarrow> (p, None, Some e)
      | Inr n \<Rightarrow> (p, Some n, None))"

definition not_entered :: "World \<Rightarrow> string \<Rightarrow> string \<Rightarrow> bool" where
  "not_entered w r k =
     (\<exists>(a, n) \<in> set (nodes w). under r a \<and> a \<noteq> k \<and> under a k
        \<and> \<not> (n = Directory \<and> map_of (faults w) a = None))"

definition below :: "World \<Rightarrow> string \<Rightarrow> string list" where
  "below w r =
     sort_key path_elems
       (filter (\<lambda>k. k \<noteq> r \<and> under r k \<and> \<not> not_entered w r k) (map fst (nodes w)))"

definition walk_visits :: "World \<Rightarrow> string \<Rightarrow> visit list" where
  "walk_visits w rt =
     (case os_Stat w rt of
        Inl e \<Rightarrow> [(rt, None, Some e)]
      | Inr n \<Rightarrow>
          (rt, Some n, None) #
          map (\<lambda>k. lstat_visit w (Join [rt, drop (length (slashed (abspath w rt))) k]))
            (below w (abspath w rt)))"

fun walk_run :: "(visit \<Rightarrow> 's \<Rightarrow> error option \<times> 's) \<Rightarrow> visit list \<Rightarrow> 's \<Rightarrow> error option \<times> 's" where
  "walk_run fn [] s = (None, s)"
| "walk_run fn (v # vs) s =
     (case fn v s of
        (Some e, s') \<Rightarrow> (Some e, s')
      | (None, s') \<Rightarrow> walk_run fn vs s')"

definition filepath_Walk ::
  "World \<Rightarrow> string \<Rightarrow> (visit \<Rightarrow> 's \<Rightarrow> error option \<times> 's) \<Rightarrow> 's \<Rightarrow> error option \<times> 's" where
  "filepath_Walk w rt fn s = walk_run fn (walk_visits w rt) s"

text \<open>
  Modelled from the spec: \<open>Checksum(alg, path)\<close> (\<open>checksum(algorithm, path)\<close> of
  section 4.A, a digest or an error) is not among the sources.  It fails when the file
  cannot be opened or read, and gives the digest of its content otherwise.
\<close>

definition Checksum :: "World \<Rightarrow> string \<Rightarrow> string \<Rightarrow> error + string" where
  "Checksum w alg path =
     (case fault_of w path of
        Some e \<Rightarrow> Inl (PathError ''open'' path e)
      | None \<Rightarrow>
          (case node_at w path of
             None \<Rightarrow> Inl (PathError ''open'' path (missing_err w path))
           | Some (RegularFile True c) \<Rightarrow> Inr (hash_of w alg c)
           | Some (RegularFile False c) \<Rightarrow> Inl (PathError ''open'' path ErrPermission)
           | Some Directory \<Rightarrow> Inl (PathError ''read'' path ErrIsDir)
           | Some Irregular \<Rightarrow> Inl (PathError ''read'' path ErrInvalid)))"
section \<open>The object reader (object_reader.go)\<close>

text \<open>
  The read-only \<open>fs.FS\<close> the reader is rooted at: \<open>Open\<close> gives an error or a file,
  and \<open>io.ReadAll\<close> on the file gives an error or its whole content.
\<close>

datatype fsfile = FsFile "error + content"

type_synonym FS = "string \<Rightarrow> error + fsfile"

fun io_ReadAll :: "fsfile \<Rightarrow> error + content" where
  "io_ReadAll (FsFile r) = r"

definition ocflVersion :: string where "ocflVersion = ''1.0''"
definition objectDeclaration :: string where "objectDeclaration = ''ocfl_object_'' @ ocflVersion"
definition objectDeclarationFile :: string where "objectDeclarationFile = ''0=ocfl_object_'' @ ocflVersion"
definition inventoryFile :: string where "inventoryFile = ''inventory.json''"

record ObjectReader =
  root :: FS
  Inventory :: Inventory

definition readDeclaration :: "FS \<Rightarrow> error option" where
  "readDeclaration rt =
     (case rt objectDeclarationFile of
        Inl err \<Rightarrow>
          Some (if errors_Is err ErrNotExist
                then Wrapped ''version declaration not found'' ErrE003 else err)
      | Inr f \<Rightarrow>
          (case io_ReadAll f of
             Inl err \<Rightarrow> Some err
           | Inr decl \<Rightarrow>
               if decl \<noteq> Bytes (objectDeclaration @ [CHR 0x0A])
               then Some (Wrapped ''version declaration invalid'' ErrE007)
               else None))"

text \<open>\<open>filepath.FromSlash\<close> where the separator is the slash.\<close>

definition FromSlash :: "string \<Rightarrow> string" where
  "FromSlash p = p"

definition version_open :: "ObjectReader \<Rightarrow> Version \<Rightarrow> FS" where
  "version_open obj v logicalPath =
     (let digest = GetDigest (entries (State v)) logicalPath in
      if digest = '''' then Inl (Wrapped logicalPath ErrNotExist)
      else
        (case map_of (entries (Manifest (Inventory obj))) digest of
           None \<Rightarrow> Inl (ErrorString (''no manifest entries files associated with the digest: '' @ digest))
         | Some [] \<Rightarrow> Inl (ErrorString (''no manifest entries files associated with the digest: '' @ digest))
         | Some (realpath # _) \<Rightarrow> root obj (FromSlash realpath)))"

definition VersionFS :: "ObjectReader \<Rightarrow> string \<Rightarrow> error + FS" where
  "VersionFS obj vname =
     (case map_of (entries (Versions (Inventory obj))) vname of
        None \<Rightarrow> Inl (ErrorString (''Version not found: '' @ vname))
      | Some v \<Rightarrow> Inr (version_open obj v))"

text \<open>Whether the root holds a declaration file, and with which content.\<close>

definition declaration_missing :: "FS \<Rightarrow> bool" where
  "declaration_missing rt =
     (case rt objectDeclarationFile of Inl err \<Rightarrow> errors_Is err ErrNotExist | Inr f \<Rightarrow> False)"

definition declaration_content :: "FS \<Rightarrow> content option" where
  "declaration_content rt =
     (case rt objectDeclarationFile of
        Inl err \<Rightarrow> None
      | Inr f \<Rightarrow> (case io_ReadAll f of Inl err \<Rightarrow> None | Inr c \<Rightarrow> Some c))"


text \<open>
  Modelled from the spec: \<open>ReadInventory\<close> (the parser of section 4.C) is not among
  the sources.  It reads the whole file and gives the inventory the document encodes.
\<close>

definition ReadInventory :: "fsfile \<Rightarrow> error + Inventory" where
  "ReadInventory f =
     (case io_ReadAll f of
        Inl err \<Rightarrow> Inl err
      | Inr (InventoryDoc doc) \<Rightarrow> Inr doc
      | Inr (Bytes b) \<Rightarrow> Inl (ErrorString ''inventory: invalid JSON''))"

definition readInventory :: "FS \<Rightarrow> string \<Rightarrow> error + Inventory" where
  "readInventory rt dir =
     (case rt (Join [dir, inventoryFile]) of
        Inl err \<Rightarrow> if errors_Is err ErrNotExist then Inl ErrE034 else Inl err
      | Inr file \<Rightarrow> ReadInventory file)"

definition NewObjectReader :: "FS \<Rightarrow> error + ObjectReader" where
  "NewObjectReader rt =
     (case readDeclaration rt of
        Some err \<Rightarrow> Inl err
      | None \<Rightarrow>
          (case readInventory rt ''.'' of
             Inl err \<Rightarrow> Inl err
           | Inr doc \<Rightarrow> Inr \<lparr> root = rt, Inventory = doc \<rparr>))"

text \<open>
  \<open>os.DirFS(dir)\<close>: the read-only view of a directory of the world that a reader is
  opened on.
\<close>

definition dirFS :: "World \<Rightarrow> string \<Rightarrow> FS" where
  "dirFS w dir name =
     (case fault_of w (Join [dir, name]) of
        Some e \<Rightarrow> Inl (PathError ''open'' name e)
      | None \<Rightarrow>
          (case node_at w (Join [dir, name]) of
             None \<Rightarrow> Inl (PathError ''open'' name (missing_err w (Join [dir, name])))
           | Some (RegularFile True c) \<Rightarrow> Inr (FsFile (Inr c))
           | Some (RegularFile False c) \<Rightarrow> Inl (PathError ''open'' name ErrPermission)
           | Some Directory \<Rightarrow> Inr (FsFile (Inl (PathError ''read'' name ErrIsDir)))
           | Some Irregular \<Rightarrow> Inr (FsFile (Inl (PathError ''read'' name ErrInvalid)))))"

section \<open>Content map operations\<close>

text \<open>
  Modelled from the spec: the content map operations \<open>Add\<close>, \<open>AddReplace\<close>,
  \<open>Remove\<close>, \<open>Rename\<close> and \<open>Copy\<close> (section 4.B) are not among the sources.
  \<open>add(d, p)\<close> succeeds silently if \<open>(d, p)\<close> is already present and fails with
  PathCollision if \<open>p\<close> is bound under a different digest; \<open>addReplace(d, p)\<close>
  rebinds \<open>p\<close> to \<open>d\<close>, removing any prior binding; \<open>remove(p)\<close> returns the
  prior digest and fails with NotFound if absent, dropping a digest whose path set
  becomes empty; \<open>rename(src, dst)\<close> fails if \<open>src\<close> is absent or \<open>dst\<close>
  present and otherwise moves the single entry; \<open>copy()\<close> is a deep copy.  A nil map
  reads as the empty map, and an operation that binds a path gives a map that is not
  nil.
\<close>

definition PathCollision :: error where "PathCollision = ErrorString ''PathCollision''"
definition NotFound :: error where "NotFound = ErrorString ''NotFound''"

fun remove_path :: "Path \<Rightarrow> cmap \<Rightarrow> cmap" where
  "remove_path p [] = []"
| "remove_path p ((d, ps) # m) =
     (if p \<in> set ps then
        (if removeAll p ps = [] then remove_path p m
         else (d, removeAll p ps) # remove_path p m)
      else (d, ps) # remove_path p m)"

fun add_path :: "Digest \<Rightarrow> Path \<Rightarrow> cmap \<Rightarrow> cmap" where
  "add_path d p [] = [(d, [p])]"
| "add_path d p ((d', ps) # m) =
     (if d' = d then (d', if p \<in> set ps then ps else ps @ [p]) # m
      else (d', ps) # add_path d p m)"

definition cm_Add :: "Digest \<Rightarrow> Path \<Rightarrow> cmap option \<Rightarrow> error option \<times> cmap option" where
  "cm_Add d p cm =
     (if bound_to (entries cm) p d then (None, cm)
      else if in_state (entries cm) p then (Some PathCollision, cm)
      else (None, Some (add_path d p (entries cm))))"

definition cm_AddReplace :: "Digest \<Rightarrow> Path \<Rightarrow> cmap option \<Rightarrow> cmap option" where
  "cm_AddReplace d p cm = Some (add_path d p (remove_path p (entries cm)))"

definition cm_Remove :: "Path \<Rightarrow> cmap option \<Rightarrow> (error + Digest) \<times> cmap option" where
  "cm_Remove p cm =
     (if in_state (entries cm) p
      then (Inr (GetDigest (entries cm) p), Some (remove_path p (entries cm)))
      else (Inl NotFound, cm))"

definition cm_Rename :: "Path \<Rightarrow> Path \<Rightarrow> cmap option \<Rightarrow> error option \<times> cmap option" where
  "cm_Rename src dst cm =
     (if \<not> in_state (entries cm) src then (Some NotFound, cm)
      else if in_state (entries cm) dst then (Some PathCollision, cm)
      else (None, Some (add_path (GetDigest (entries cm) src) dst (remove_path src (entries cm)))))"

definition cm_Copy :: "cmap option \<Rightarrow> cmap option" where
  "cm_Copy cm = cm"

text \<open>Assignment to a key of a Go map.\<close>

definition map_put :: "'k \<Rightarrow> 'v \<Rightarrow> ('k \<times> 'v) list \<Rightarrow> ('k \<times> 'v) list" where
  "map_put k v m =
     (if k \<in> fst ` set m then map (\<lambda>(k', v'). if k' = k then (k', v) else (k', v')) m
      else m @ [(k, v)])"

section \<open>The stage (stage.go)\<close>

text \<open>
  The parent object: its directory and its inventory.  The type \<open>Object\<close> and its
  methods are not among the sources; the field is named \<open>obj_Path\<close> here because the
  stage has a field \<open>Path\<close> too.
\<close>

record Object =
  obj_Path :: string
  inventory :: Inventory

text \<open>
  The stage.  \<open>StageState\<close> and \<open>StagePath\<close> are the fields \<open>State\<close> and
  \<open>Path\<close> of the source (a version has a field \<open>State\<close> too); \<open>object\<close> is the
  pointer to the parent, \<open>None\<close> when nil.  What the code does to the parent through
  the pointer is done to the object inside the returned stage.
\<close>

record Stage =
  StageState :: "cmap option"
  StagePath :: string
  object :: "Object option"

text \<open>A call returns, or panics (a nil pointer, an assignment to a nil map).\<close>

datatype 'a outcome = Returns 'a | Panics string

text \<open>
  Functions of the library that the stage and the validator call and that are not
  among the sources are parameters of the model.
\<close>

record checksumJob =
  job_path :: string
  job_alg :: string
  job_expected :: Digest

record checksumResult =
  res_err :: "error option"
  res_sum :: string
  res_expected :: Digest

record helpers =
  nextVersion :: "Object \<Rightarrow> error + string"
  versionPadding :: "string \<Rightarrow> int"
  versionGen :: "int \<Rightarrow> int \<Rightarrow> string"
  versionDirs :: "World \<Rightarrow> Object \<Rightarrow> string list \<times> error option"
  ReadValidateInventory :: "World \<Rightarrow> string \<Rightarrow> error + Inventory"
  digester :: "World \<Rightarrow> checksumJob list \<Rightarrow> checksumResult list"

definition clear :: "World \<Rightarrow> Stage \<Rightarrow> World \<times> Stage" where
  "clear w stage =
     (let (w1, stage1) =
        (if StagePath stage \<noteq> [] then
           (snd (os_RemoveAll w (StagePath stage)), stage\<lparr>StagePath := []\<rparr>)
         else (w, stage))
      in (w1, stage1\<lparr>StageState := None\<rparr>))"

definition fullPath :: "Stage \<Rightarrow> string \<Rightarrow> string" where
  "fullPath stage lPath = Join [StagePath stage, lPath]"

definition isStaged :: "World \<Rightarrow> Stage \<Rightarrow> string \<Rightarrow> bool" where
  "isStaged w stage lPath =
     (\<not> os_IsNotExist (stat_err (os_Stat w (fullPath stage lPath))))"

text \<open>
  \<open>OpenFile\<close> returns the pair of a file and an error; both are nil on one of its
  paths.
\<close>

definition open_scratch ::
  "World \<Rightarrow> Stage \<Rightarrow> (os_File option \<times> error option) outcome \<times> World + World \<times> Stage" where
  "open_scratch w stage =
     (if StagePath stage = [] then
        (case object stage of
           None \<Rightarrow> Inl (Panics ''invalid memory address or nil pointer dereference'', w)
         | Some obj \<Rightarrow>
             (case ioutil_TempDir w (obj_Path obj) ''stage'' of
                (Inl err, w1) \<Rightarrow> Inl (Returns (None, Some err), w1)
              | (Inr dir, w1) \<Rightarrow> Inr (w1, stage\<lparr>StagePath := dir\<rparr>)))
      else Inr (w, stage))"

definition OpenFile ::
  "World \<Rightarrow> Stage \<Rightarrow> string \<Rightarrow> (os_File option \<times> error option) outcome \<times> World \<times> Stage" where
  "OpenFile w stage lPath =
     (case open_scratch w stage of
        Inl (r, w1) \<Rightarrow> (r, w1, stage)
      | Inr (w1, stage1) \<Rightarrow>
          (let fullPath = fullPath stage1 lPath;
               dir = Dir fullPath;
               err = stat_err (os_Stat w1 dir)
           in if os_IsNotExist err then
                (let w2 = snd (os_MkdirAll w1 dir);
                     (r, w3) = os_OpenFile w2 fullPath
                 in (Returns r, w3, stage1))
              else (Returns (None, err), w1, stage1)))"

definition Rename :: "World \<Rightarrow> Stage \<Rightarrow> string \<Rightarrow> string \<Rightarrow> error option \<times> World \<times> Stage" where
  "Rename w stage src dst =
     (let (early, renamedStaged, w1) =
        (if isStaged w stage src then
           (case os_Rename w (fullPath stage src) (fullPath stage dst) of
              (Some err, w') \<Rightarrow> (Some err, False, w')
            | (None, w') \<Rightarrow> (None, True, w'))
         else (None, False, w))
      in case early of
           Some err \<Rightarrow> (Some err, w1, stage)
         | None \<Rightarrow>
             (let (err, state') = cm_Rename src dst (StageState stage);
                  stage' = stage\<lparr>StageState := state'\<rparr>
              in if err \<noteq> None \<and> \<not> renamedStaged then (err, w1, stage')
                 else (None, w1, stage')))"

definition Remove :: "World \<Rightarrow> Stage \<Rightarrow> string \<Rightarrow> error option \<times> World \<times> Stage" where
  "Remove w stage lPath =
     (let (early, removedStaged, w1) =
        (if isStaged w stage lPath then
           (case os_Remove w (fullPath stage lPath) of
              (Some err, w') \<Rightarrow> (Some err, False, w')
            | (None, w') \<Rightarrow> (None, True, w'))
         else (None, False, w))
      in case early of
           Some err \<Rightarrow> (Some err, w1, stage)
         | None \<Rightarrow>
             (let (r, state') = cm_Remove lPath (StageState stage);
                  stage' = stage\<lparr>StageState := state'\<rparr>
              in (case r of
                    Inl err \<Rightarrow> if \<not> removedStaged then (Some err, w1, stage') else (None, w1, stage')
                  | Inr _ \<Rightarrow> (None, w1, stage'))))"

subsection \<open>Commit\<close>

text \<open>
  Modelled from the spec: \<open>writeInventoryVersion\<close> and \<open>writeInventory\<close> (section
  4.C, and step 7 of commit in 4.E) are not among the sources.  Each persists the
  inventory document as \<open>inventory.json\<close> and then the sidecar
  \<open>inventory.json.<alg>\<close> holding the digest, two spaces, \<open>inventory.json\<close> and a
  line feed; a write is atomic (a temporary file renamed over the target), so a write
  that fails leaves its target as it was.
\<close>

definition write_file :: "World \<Rightarrow> string \<Rightarrow> content \<Rightarrow> error option \<times> World" where
  "write_file w name c =
     (case fault_of w name of
        Some e \<Rightarrow> (Some (PathError ''open'' name e), w)
      | None \<Rightarrow>
          (case parent_err w name of
             Some e \<Rightarrow> (Some (PathError ''open'' name e), w)
           | None \<Rightarrow>
               if node_at w name = Some Directory
               then (Some (LinkError ''rename'' (name @ ''.tmp'') name ErrIsDir), w)
               else (None, w\<lparr>nodes := put_node (abspath w name) (RegularFile True c) (nodes w)\<rparr>)))"

definition write_inventory :: "World \<Rightarrow> string \<Rightarrow> Inventory \<Rightarrow> error option \<times> World" where
  "write_inventory w dir doc =
     (let target = Join [dir, ''inventory.json''] in
      case write_file w target (InventoryDoc doc) of
        (Some e, w1) \<Rightarrow> (Some e, w1)
      | (None, w1) \<Rightarrow>
          write_file w1 (target @ ''.'' @ DigestAlgorithm doc)
            (Bytes (hash_of w (DigestAlgorithm doc) (InventoryDoc doc)
                    @ ''  inventory.json'' @ [CHR 0x0A])))"

definition writeInventoryVersion :: "World \<Rightarrow> Object \<Rightarrow> string \<Rightarrow> error option \<times> World" where
  "writeInventoryVersion w obj ver = write_inventory w (Join [obj_Path obj, ver]) (inventory obj)"

definition writeInventory :: "World \<Rightarrow> Object \<Rightarrow> error option \<times> World" where
  "writeInventory w obj = write_inventory w (obj_Path obj) (inventory obj)"

definition IsRegular :: "node option \<Rightarrow> bool" where
  "IsRegular info = (case info of Some (RegularFile r c) \<Rightarrow> True | _ \<Rightarrow> False)"

text \<open>
  The walk function of \<open>Commit\<close>, on the state it changes: the stage's state and the
  object's manifest.
\<close>

definition commit_walk ::
  "World \<Rightarrow> Object \<Rightarrow> string \<Rightarrow> visit \<Rightarrow> cmap option \<times> cmap option
     \<Rightarrow> error option \<times> cmap option \<times> cmap option" where
  "commit_walk w obj verContDir v s =
     (case v of (path, info, walkErr) \<Rightarrow>
        if walkErr = None \<and> IsRegular info then
          (case Checksum w (DigestAlgorithm (inventory obj)) path of
             Inl digestErr \<Rightarrow> (Some digestErr, s)
           | Inr digest \<Rightarrow>
               (case Rel (obj_Path obj) path of
                  Inl pathErr \<Rightarrow> (Some pathErr, s)
                | Inr ePath \<Rightarrow>
                    (case Rel verContDir path of
                       Inl pathErr \<Rightarrow> (Some pathErr, s)
                     | Inr vPath \<Rightarrow>
                         (walkErr,
                          cm_AddReplace digest vPath (fst s),
                          snd (cm_Add digest ePath (snd s))))))
        else (walkErr, s))"

text \<open>
  Moving the new content into the version directory and walking it.  The result is the
  error \<open>Commit\<close> returns there, or the world with the state and the manifest after the
  walk; what \<open>filepath.Walk\<close> returns is not looked at.
\<close>

definition commit_content ::
  "World \<Rightarrow> Stage \<Rightarrow> Object \<Rightarrow> string
     \<Rightarrow> error \<times> World + World \<times> cmap option \<times> cmap option" where
  "commit_content w stage obj verDir =
     (let s0 = (StageState stage, Manifest (inventory obj)) in
      if StagePath stage \<noteq> [] then
        (case ioutil_ReadDir w (StagePath stage) of
           Inl err \<Rightarrow> Inl (err, w)
         | Inr newFiles \<Rightarrow>
             if length newFiles > 0 then
               (let verContDir = Join [verDir, ''content''] in
                case os_Rename w (StagePath stage) verContDir of
                  (Some err, w1) \<Rightarrow> Inl (err, w1)
                | (None, w1) \<Rightarrow>
                    Inr (w1, snd (filepath_Walk w1 verContDir (commit_walk w1 obj verContDir) s0)))
             else Inr (w, s0))
      else Inr (w, s0))"

text \<open>
  The new version and the update of the inventory; assigning to \<open>Versions\<close> panics
  when the map is nil.
\<close>

definition commit_version :: "World \<Rightarrow> Stage \<Rightarrow> User \<Rightarrow> string \<Rightarrow> Version" where
  "commit_version w stage user message =
     \<lparr> State = cm_Copy (StageState stage), Created = clock w, Message = message, User = user \<rparr>"

definition commit_update :: "World \<Rightarrow> Stage \<Rightarrow> Object \<Rightarrow> string \<Rightarrow> User \<Rightarrow> string \<Rightarrow> Object option" where
  "commit_update w stage obj nextVer user message =
     (case Versions (inventory obj) of
        None \<Rightarrow> None
      | Some vs \<Rightarrow>
          Some (obj\<lparr>inventory := (inventory obj)
                  \<lparr>Versions := Some (map_put nextVer (commit_version w stage user message) vs),
                   Head := nextVer\<rparr>\<rparr>))"

text \<open>
  \<open>Commit\<close> up to the first of its two writes of the inventory: the result it
  returns early (or its panic), or the world, the stage, the object and the name of
  the new version once the inventory is written in the version directory.
\<close>

definition commit_steps ::
  "helpers \<Rightarrow> World \<Rightarrow> Stage \<Rightarrow> User \<Rightarrow> string
     \<Rightarrow> error option outcome \<times> World \<times> Stage + World \<times> Stage \<times> Object \<times> string" where
  "commit_steps h w stage user message =
     (case object stage of
        None \<Rightarrow> Inl (Returns (Some (ErrorString ''stage has no parent object'')), w, stage)
      | Some obj \<Rightarrow>
          (case StageState stage of
             None \<Rightarrow> Inl (Returns (Some (ErrorString ''stage has no state'')), w, stage)
           | Some state \<Rightarrow>
               (case nextVersion h obj of
                  Inl err \<Rightarrow> Inl (Returns (Some err), w, stage)
                | Inr nextVer \<Rightarrow>
                    (let verDir = Join [obj_Path obj, nextVer] in
                     case os_Mkdir w verDir of
                       (Some err, w1) \<Rightarrow> Inl (Returns (Some err), w1, stage)
                     | (None, w1) \<Rightarrow>
                         (case commit_content w1 stage obj verDir of
                            Inl (err, w2) \<Rightarrow> Inl (Returns (Some err), w2, stage)
                          | Inr (w2, state', man') \<Rightarrow>
                              (let stage1 = stage\<lparr>StageState := state'\<rparr>;
                                   obj1 = obj\<lparr>inventory := (inventory obj)\<lparr>Manifest := man'\<rparr>\<rparr>
                               in case commit_update w2 stage1 obj1 nextVer user message of
                                    None \<Rightarrow>
                                      Inl (Panics ''assignment to entry in nil map'', w2,
                                           stage1\<lparr>object := Some obj1\<rparr>)
                                  | Some obj2 \<Rightarrow>
                                      (case writeInventoryVersion w2 obj2 nextVer of
                                         (Some err, w3) \<Rightarrow>
                                           Inl (Returns (Some err), w3, stage1\<lparr>object := Some obj2\<rparr>)
                                       | (None, w3) \<Rightarrow>
                                           Inr (w3, stage1\<lparr>object := Some obj2\<rparr>, obj2, nextVer))))))))"

definition Commit ::
  "helpers \<Rightarrow> World \<Rightarrow> Stage \<Rightarrow> User \<Rightarrow> string \<Rightarrow> error option outcome \<times> World \<times> Stage" where
  "Commit h w stage user message =
     (case commit_steps h w stage user message of
        Inl r \<Rightarrow> r
      | Inr (w1, stage1, obj1, nextVer) \<Rightarrow>
          (case writeInventory w1 obj1 of
             (err, w2) \<Rightarrow> (Returns err, w2, stage1)))"

subsection \<open>Notions used to state the properties of the stage\<close>


text \<open>
  The two renames of \<open>Rename\<close>: the rename in the scratch directory, which is
  attempted when the source is staged, and the rename in the state.
\<close>

definition fs_rename_succeeds :: "World \<Rightarrow> Stage \<Rightarrow> string \<Rightarrow> string \<Rightarrow> bool" where
  "fs_rename_succeeds w stage src dst =
     (isStaged w stage src \<and> fst (os_Rename w (fullPath stage src) (fullPath stage dst)) = None)"

definition fs_rename_fails :: "World \<Rightarrow> Stage \<Rightarrow> string \<Rightarrow> string \<Rightarrow> bool" where
  "fs_rename_fails w stage src dst =
     (isStaged w stage src \<and> fst (os_Rename w (fullPath stage src) (fullPath stage dst)) \<noteq> None)"

definition state_rename_succeeds :: "Stage \<Rightarrow> string \<Rightarrow> string \<Rightarrow> bool" where
  "state_rename_succeeds stage src dst = (fst (cm_Rename src dst (StageState stage)) = None)"

text \<open>The stage with the state after the rename in the state.\<close>

definition state_renamed :: "Stage \<Rightarrow> string \<Rightarrow> string \<Rightarrow> Stage" where
  "state_renamed stage src dst = stage\<lparr>StageState := snd (cm_Rename src dst (StageState stage))\<rparr>"

text \<open>
  What a fresh \<open>ObjectReader\<close> over the object's directory reads: an error, or the
  inventory with its head.
\<close>

definition fresh_inventory :: "World \<Rightarrow> string \<Rightarrow> error + Inventory" where
  "fresh_inventory w dir =
     (case NewObjectReader (dirFS w dir) of
        Inl err \<Rightarrow> Inl err
      | Inr reader \<Rightarrow> Inr (Inventory reader))"

text \<open>
  The exception of the commit's atomicity: the inventory was written in the version
  directory and the write of the root inventory failed.
\<close>

definition root_write_failed :: "helpers \<Rightarrow> World \<Rightarrow> Stage \<Rightarrow> User \<Rightarrow> string \<Rightarrow> bool" where
  "root_write_failed h w stage user message =
     (case commit_steps h w stage user message of
        Inl r \<Rightarrow> False
      | Inr (w1, stage1, obj1, nextVer) \<Rightarrow> fst (writeInventory w1 obj1) \<noteq> None)"

text \<open>
  The layout a commit works in: the object's declaration and its root inventory are
  two files; neither of them, and no directory on the way to them, is one of the
  entries the commit creates (the version directory, the inventory and the sidecar in
  it, the sidecar of the root inventory) or lies in the scratch directory or in the
  content directory it is renamed to.
\<close>

definition commit_paths_apart :: "World \<Rightarrow> Stage \<Rightarrow> Object \<Rightarrow> string \<Rightarrow> bool" where
  "commit_paths_apart w stage obj nextVer =
     (let dir = obj_Path obj;
          alg = DigestAlgorithm (inventory obj);
          verDir = Join [dir, nextVer];
          decl = abspath w (Join [dir, objectDeclarationFile]);
          rootinv = abspath w (Join [dir, ''inventory.json'']);
          created = [abspath w verDir,
                     abspath w (Join [verDir, ''inventory.json'']),
                     abspath w (Join [verDir, ''inventory.json''] @ ''.'' @ alg),
                     abspath w (Join [dir, ''inventory.json''] @ ''.'' @ alg)];
          moved = (if StagePath stage = [] then []
                   else [abspath w (StagePath stage), abspath w (Join [verDir, ''content''])])
      in decl \<noteq> rootinv
         \<and> list_all (\<lambda>k. k \<notin> set created \<and> list_all (\<lambda>d. \<not> under d k) moved)
              ([decl, rootinv] @ parents [] decl @ parents [] rootinv))"

text \<open>
  The layout of the commit of a stage on its parent object: that of the version the
  object's \<open>nextVersion\<close> names, when it names one.
\<close>

definition commit_layout :: "helpers \<Rightarrow> World \<Rightarrow> Stage \<Rightarrow> Object \<Rightarrow> bool" where
  "commit_layout h w stage obj =
     (case nextVersion h obj of
        Inl err \<Rightarrow> True
      | Inr nextVer \<Rightarrow> commit_paths_apart w stage obj nextVer)"

text \<open>
  Two worlds agree at an absolute path: same working directory, same faults, same node
  at the path.
\<close>

definition same_at :: "World \<Rightarrow> World \<Rightarrow> string \<Rightarrow> bool" where
  "same_at w w' k =
     (cwd w' = cwd w \<and> faults w' = faults w \<and> map_of (nodes w') k = map_of (nodes w) k)"

section \<open>The streaming validator (validation.go)\<close>

text \<open>
  The validator runs in goroutines that send errors over unbuffered channels and watch
  a context.  The model follows one goroutine at a time and makes the other side of
  each channel a parameter.

  For \<open>sendErr\<close>, the consumer of the validation takes a number of errors and then
  cancels the context (never, when the budget is \<open>None\<close>): a send is received while
  the budget lasts, and afterwards \<open>sendErr\<close> finds the context done and returns
  false.  An inner stream is the list of errors it delivers while its consumer keeps
  receiving; the goroutine that forwards it stops at the first failed send, so what
  the inner stream would deliver after the cancellation is never forwarded.
\<close>

record vstate =
  emitted :: "error list"
  budget :: "nat option"

definition sendErr :: "error \<Rightarrow> vstate \<Rightarrow> bool \<times> vstate" where
  "sendErr err s =
     (if budget s = Some 0 then (False, s)
      else (True, s\<lparr>emitted := emitted s @ [err], budget := map_option (\<lambda>n. n - 1) (budget s)\<rparr>))"

text \<open>The loop \<open>for err := range stream { if !sendErr(ctx, errs, err) { return } }\<close>.\<close>

fun forward :: "error list \<Rightarrow> vstate \<Rightarrow> bool \<times> vstate" where
  "forward [] s = (True, s)"
| "forward (err # rest) s =
     (case sendErr err s of
        (False, s') \<Rightarrow> (False, s')
      | (True, s') \<Rightarrow> forward rest s')"

text \<open>The same loop inside a loop over directories, or over fixity maps.\<close>

fun forward_each :: "('a \<Rightarrow> error list) \<Rightarrow> 'a list \<Rightarrow> vstate \<Rightarrow> bool \<times> vstate" where
  "forward_each stream [] s = (True, s)"
| "forward_each stream (x # xs) s =
     (case forward (stream x) s of
        (False, s') \<Rightarrow> (False, s')
      | (True, s') \<Rightarrow> forward_each stream xs s')"

subsection \<open>Structure of an inventory\<close>

text \<open>
  Modelled from the spec: the constants \<open>inventoryType\<close>, \<open>digestAlgorithms\<close> and
  \<open>inventoryFileName\<close> and the functions \<open>stringIn\<close> and \<open>versionNames\<close> are not
  among the sources.  The type is the one of section 3, the algorithms are those of
  section 6, and the version names are the keys of \<open>Versions\<close> in order.
\<close>

definition inventoryType :: string where
  "inventoryType = ''https://ocfl.io/1.0/spec/#inventory''"

definition digestAlgorithms :: "string list" where
  "digestAlgorithms = [''sha256'', ''sha512'', ''sha1'', ''md5'', ''blake2b-512'']"

definition inventoryFileName :: string where
  "inventoryFileName = ''inventory.json''"

definition stringIn :: "string \<Rightarrow> string list \<Rightarrow> bool" where
  "stringIn a xs = (a \<in> set xs)"

definition version_names :: "Inventory \<Rightarrow> string list" where
  "version_names doc = sort (map fst (entries (Versions doc)))"

text \<open>
  The errors \<open>validateStructure\<close> sends, in order.  \<open>versionPadding\<close> and
  \<open>versionGen\<close> are parameters.  The two loops over Go maps send the same error at
  every step, so the order of the maps does not show.
\<close>

definition version_format_errors :: "helpers \<Rightarrow> Inventory \<Rightarrow> error list" where
  "version_format_errors h doc =
     (case version_names doc of
        [] \<Rightarrow> []
      | v0 # _ \<Rightarrow>
          (let padding = versionPadding h v0 in
           concat (map (\<lambda>i. if versionGen h (int i + 1) padding \<in> fst ` set (entries (Versions doc))
                              then [] else [NewErr VerFormatErr])
                       [0 ..< length (version_names doc)])))"

definition manifest_digest_errors :: "Inventory \<Rightarrow> error list" where
  "manifest_digest_errors doc =
     concat (map (\<lambda>(vname, v).
                    concat (map (\<lambda>(digest, ps).
                                   if LenDigest (entries (Manifest doc)) digest = 0
                                   then [NewErr ManDigestErr] else [])
                                (entries (State v))))
                 (entries (Versions doc)))"

definition validateStructure :: "helpers \<Rightarrow> Inventory \<Rightarrow> error list" where
  "validateStructure h doc =
     (if ID doc = [] then [NewErr InvIDErr] else [])
     @ (if Type doc \<noteq> inventoryType then [NewErr InvTypeErr] else [])
     @ (if DigestAlgorithm doc = [] then [NewErr InvDigestErr]
        else if \<not> stringIn (DigestAlgorithm doc) digestAlgorithms then [NewErr InvDigestErr]
        else [])
     @ (if Manifest doc = None then [NewErr InvNoManErr] else [])
     @ (if Versions doc = None then [NewErr InvNoVerErr] else [])
     @ (if length (entries (Versions doc)) > 0 then version_format_errors h doc else [])
     @ manifest_digest_errors doc"

subsection \<open>A version directory\<close>

definition verdir_walk :: "Object \<Rightarrow> visit \<Rightarrow> error list \<Rightarrow> error option \<times> error list" where
  "verdir_walk obj v sent =
     (case v of (fPath, info, err) \<Rightarrow>
        (case err of
           Some e \<Rightarrow> (Some e, sent)
         | None \<Rightarrow>
             if \<not> IsRegular info then (None, sent)
             else
               (case Rel (obj_Path obj) fPath of
                  Inl pathErr \<Rightarrow> (Some pathErr, sent)
                | Inr ePath \<Rightarrow>
                    if GetDigest (entries (Manifest (inventory obj))) ePath = []
                    then (None, sent @ [NewErr ManPathErr])
                    else (None, sent))))"

definition validateVerDir :: "helpers \<Rightarrow> World \<Rightarrow> Object \<Rightarrow> string \<Rightarrow> error list" where
  "validateVerDir h w obj ver =
     (let invPath = Join [obj_Path obj, ver, inventoryFileName];
          contPath = Join [obj_Path obj, ver, ''content'']
      in (case ReadValidateInventory h w invPath of
            Inl err \<Rightarrow> if os_IsNotExist (Some err) then [] else [err]
          | Inr doc \<Rightarrow> validateStructure h doc)
         @ snd (filepath_Walk w contPath (verdir_walk obj) []))"

subsection \<open>Checksums of a content map\<close>

text \<open>
  Modelled from the spec: \<open>Iterate\<close> (\<open>iterate()\<close> of section 4.B: the pairs of a
  digest and a path, digests ascending and the paths of a digest ascending) is not
  among the sources.
\<close>

definition Iterate :: "cmap option \<Rightarrow> (Digest \<times> Path) list" where
  "Iterate cm =
     concat (map (\<lambda>(d, ps). map (\<lambda>p. (d, p)) (sort ps)) (sort_key fst (entries cm)))"

definition checksum_jobs :: "cmap option \<Rightarrow> string \<Rightarrow> string \<Rightarrow> checksumJob list" where
  "checksum_jobs cm dir alg =
     map (\<lambda>(d, p). \<lparr> job_path = Join [dir, p], job_alg = alg, job_expected = d \<rparr>) (Iterate cm)"

text \<open>
  The goroutine of \<open>ContentMap.Validate\<close> that reads the results of the digester and
  sends the errors.  Its sends are plain channel sends: they wait for the receiver.
  The parameters are the results the digester delivers; \<open>cancel\<close>, the number of
  results the loop has taken when the context is cancelled (\<open>None\<close>: never); and
  \<open>demand\<close>, the number of errors the consumer of the stream receives before it stops
  receiving (\<open>None\<close>: it receives until the stream closes).  The stream ends closed,
  or the goroutine stays blocked in a send that nobody receives and the stream never
  closes; either way with the errors delivered so far.
\<close>

datatype stream = Closed "error list" | Blocked "error list"

definition ctx_done :: "nat option \<Rightarrow> nat \<Rightarrow> bool" where
  "ctx_done cancel i = (case cancel of None \<Rightarrow> False | Some k \<Rightarrow> k \<le> i)"

definition receiver_ready :: "nat option \<Rightarrow> error list \<Rightarrow> bool" where
  "receiver_ready demand sent = (case demand of None \<Rightarrow> True | Some m \<Rightarrow> length sent < m)"

fun coordinate :: "nat option \<Rightarrow> nat option \<Rightarrow> nat \<Rightarrow> error list \<Rightarrow> checksumResult list \<Rightarrow> stream" where
  "coordinate cancel demand i sent [] = Closed sent"
| "coordinate cancel demand i sent (result # rest) =
     (if ctx_done cancel i then
        (if receiver_ready demand sent then Closed (sent @ [NewErr CtxCanceledErr])
         else Blocked sent)
      else
        (case res_err result of
           Some e \<Rightarrow>
             if receiver_ready demand sent then coordinate cancel demand (Suc i) (sent @ [e]) rest
             else Blocked sent
         | None \<Rightarrow>
             if res_sum result \<noteq> res_expected result then
               (if receiver_ready demand sent
                then coordinate cancel demand (Suc i) (sent @ [NewErr ContentChecksumErr]) rest
                else Blocked sent)
             else coordinate cancel demand (Suc i) sent rest))"

definition ContentMap_Validate :: "checksumResult list \<Rightarrow> nat option \<Rightarrow> nat option \<Rightarrow> stream" where
  "ContentMap_Validate results cancel demand = coordinate cancel demand 0 [] results"

text \<open>The errors of a list of results, as the loop sends them.\<close>

definition checksum_errors :: "checksumResult list \<Rightarrow> error list" where
  "checksum_errors results =
     concat (map (\<lambda>r. case res_err r of
                         Some e \<Rightarrow> [e]
                       | None \<Rightarrow> if res_sum r \<noteq> res_expected r then [NewErr ContentChecksumErr] else [])
                 results)"

text \<open>Whether the consumer receives at least \<open>n\<close> errors.\<close>

definition receives :: "nat option \<Rightarrow> nat \<Rightarrow> bool" where
  "receives demand n = (case demand of None \<Rightarrow> True | Some m \<Rightarrow> n \<le> m)"

text \<open>
  The stream of a content map as \<open>Object.Validate\<close> reads it: the context not
  cancelled, every error received.
\<close>

definition stream_errors :: "stream \<Rightarrow> error list" where
  "stream_errors st = (case st of Closed es \<Rightarrow> es | Blocked es \<Rightarrow> es)"

definition checksum_stream :: "helpers \<Rightarrow> World \<Rightarrow> cmap option \<Rightarrow> string \<Rightarrow> string \<Rightarrow> error list" where
  "checksum_stream h w cm dir alg =
     stream_errors (ContentMap_Validate (digester h w (checksum_jobs cm dir alg)) None None)"

subsection \<open>The object\<close>

text \<open>
  \<open>Object.Validate\<close>: the errors the consumer receives.  \<open>cancel\<close> is the number of
  errors the consumer takes before it cancels the context (\<open>None\<close>: it never
  cancels).  \<open>versionDirs\<close> is a parameter.
\<close>

definition later_phases :: "helpers \<Rightarrow> World \<Rightarrow> Object \<Rightarrow> vstate \<Rightarrow> vstate" where
  "later_phases h w obj s1 =
     (let doc = inventory obj; alg = DigestAlgorithm doc; man = Manifest doc; path = obj_Path obj
      in case versionDirs h w obj of
           (vDirs, err) \<Rightarrow>
             (case (case err of Some e \<Rightarrow> sendErr e s1 | None \<Rightarrow> (True, s1)) of
                (False, s2) \<Rightarrow> s2
              | (True, s2) \<Rightarrow>
                  (case forward_each (validateVerDir h w obj) vDirs s2 of
                     (False, s3) \<Rightarrow> s3
                   | (True, s3) \<Rightarrow>
                       (case forward (checksum_stream h w man path alg) s3 of
                          (False, s4) \<Rightarrow> s4
                        | (True, s4) \<Rightarrow>
                            snd (forward_each
                                   (\<lambda>(alg, manifest). checksum_stream h w manifest path alg)
                                   (Fixity doc) s4)))))"

definition Object_Validate :: "helpers \<Rightarrow> World \<Rightarrow> Object \<Rightarrow> nat option \<Rightarrow> error list" where
  "Object_Validate h w obj cancel =
     (let invErrs = validateStructure h (inventory obj) in
      case forward invErrs \<lparr> emitted = [], budget = cancel \<rparr> of
        (False, s1) \<Rightarrow> emitted s1
      | (True, s1) \<Rightarrow>
          if invErrs \<noteq> [] then emitted s1
          else emitted (later_phases h w obj s1))"

text \<open>The errors the phases after the root inventory deliver when nothing is cancelled.\<close>

definition later_errors :: "helpers \<Rightarrow> World \<Rightarrow> Object \<Rightarrow> error list" where
  "later_errors h w obj =
     (case snd (versionDirs h w obj) of Some e \<Rightarrow> [e] | None \<Rightarrow> [])
     @ concat (map (validateVerDir h w obj) (fst (versionDirs h w obj)))
     @ checksum_stream h w (Manifest (inventory obj)) (obj_Path obj) (DigestAlgorithm (inventory obj))
     @ concat (map (\<lambda>(alg, manifest). checksum_stream h w manifest (obj_Path obj) alg)
                   (Fixity (inventory obj)))"

section \<open>Examples\<close>

text \<open>Example roots: a directory holding only a declaration file, and an empty one.\<close>

definition declared_root :: "string \<Rightarrow> FS" where
  "declared_root c n =
     (if n = ''0=ocfl_object_1.0'' then Inr (FsFile (Inr (Bytes c)))
      else Inl (PathError ''open'' n ErrNotExist))"

definition empty_root :: FS where
  "empty_root n = Inl (PathError ''open'' n ErrNotExist)"

text \<open>
  An example object: version \<open>v1\<close> names two logical files with the same content and
  one whose digest the manifest does not hold.
\<close>

definition example_version :: Version where
  "example_version =
     \<lparr> State = Some [(''abc'', [''a.txt'', ''b.txt'']), (''def'', [''c.txt''])],
       Created = 0, Message = ''init'',
       User = \<lparr> Name = ''Alice'', Address = ''mailto:a@x'' \<rparr> \<rparr>"

definition example_inventory :: Inventory where
  "example_inventory =
     \<lparr> ID = ''urn:example'', Type = ''https://ocfl.io/1.0/spec/#inventory'',
       DigestAlgorithm = ''sha512'', Head = ''v1'', ContentDirectory = ''content'',
       Manifest = Some [(''abc'', [''v1/content/a.txt''])],
       Versions = Some [(''v1'', example_version)],
       Fixity = [] \<rparr>"

definition example_content_root :: FS where
  "example_content_root n =
     (if n = ''v1/content/a.txt'' then Inr (FsFile (Inr (Bytes ''hello'')))
      else Inl (PathError ''open'' n ErrNotExist))"

definition example_reader :: ObjectReader where
  "example_reader = \<lparr> root = example_content_root, Inventory = example_inventory \<rparr>"

text \<open>
  An example world: the object of the example above in directory \<open>/obj\<close>, with its
  declaration and its inventory, and a stage opened on it.
\<close>

definition example_hash :: "string \<Rightarrow> content \<Rightarrow> string" where
  "example_hash alg c = (case c of Bytes b \<Rightarrow> alg @ '':'' @ b | InventoryDoc d \<Rightarrow> alg @ '':inventory'')"

definition example_world :: World where
  "example_world =
     \<lparr> cwd = ''/'',
       nodes = [(''/'', Directory), (''/obj'', Directory),
                (''/obj/0=ocfl_object_1.0'', RegularFile True (Bytes (''ocfl_object_1.0'' @ [CHR 0x0A]))),
                (''/obj/inventory.json'', RegularFile True (InventoryDoc example_inventory)),
                (''/obj/v1'', Directory), (''/obj/v1/content'', Directory),
                (''/obj/v1/content/a.txt'', RegularFile True (Bytes ''hello''))],
       faults = [], tempnames = [''123''], clock = 7, hash_of = example_hash \<rparr>"

definition example_object :: Object where
  "example_object = \<lparr> obj_Path = ''/obj'', inventory = example_inventory \<rparr>"

definition example_stage :: Stage where
  "example_stage =
     \<lparr> StageState = State example_version, StagePath = [], object = Some example_object \<rparr>"

definition example_helpers :: helpers where
  "example_helpers =
     \<lparr> nextVersion = (\<lambda>obj. Inr ''v2''),
       versionPadding = (\<lambda>v. 0),
       versionGen = (\<lambda>i p. if i = 1 then ''v1'' else if i = 2 then ''v2'' else ''v3''),
       versionDirs = (\<lambda>w obj. ([''v1''], None)),
       ReadValidateInventory = (\<lambda>w p. Inl (PathError ''open'' p ErrNotExist)),
       digester = (\<lambda>w jobs. []) \<rparr>"

definition example_user :: User where
  "example_user = \<lparr> Name = ''Alice'', Address = ''mailto:a@x'' \<rparr>"

text \<open>
  The same world after a file \<open>new.txt\<close> has been staged in the scratch directory
  \<open>/obj/stage123\<close>; \<open>readable\<close> tells whether its content can be read.
\<close>

definition staged_world :: "bool \<Rightarrow> World" where
  "staged_world readable =
     example_world
       \<lparr> nodes := nodes example_world @
           [(''/obj/stage123'', Directory),
            (''/obj/stage123/new.txt'', RegularFile readable (Bytes ''new''))],
         tempnames := [] \<rparr>"

definition staged_stage :: Stage where
  "staged_stage = example_stage \<lparr> StagePath := ''/obj/stage123'' \<rparr>"

text \<open>
  The example world after a new content for \<open>a.txt\<close>, a file of the state, has been
  staged in the scratch directory.
\<close>

definition restaged_world :: World where
  "restaged_world =
     example_world
       \<lparr> nodes := nodes example_world @
           [(''/obj/stage123'', Directory),
            (''/obj/stage123/a.txt'', RegularFile True (Bytes ''changed''))],
         tempnames := [] \<rparr>"

text \<open>A helper record whose \<open>nextVersion\<close> fails.\<close>

definition failing_helpers :: helpers where
  "failing_helpers = example_helpers \<lparr> nextVersion := (\<lambda>obj. Inl (ErrorString ''no next version'')) \<rparr>"


text \<open>The example world after \<open>OpenFile("a.txt")\<close> on the new stage, and that stage.\<close>

definition opened_world :: World where
  "opened_world = fst (snd (OpenFile example_world example_stage ''a.txt''))"

definition opened_stage :: Stage where
  "opened_stage = snd (snd (OpenFile example_world example_stage ''a.txt''))"

text \<open>
  An object whose root inventory has no id and whose content does not match the
  manifest: the digester reports a digest that differs from the expected one for every
  file.
\<close>

definition mismatch_helpers :: helpers where
  "mismatch_helpers =
     example_helpers
       \<lparr> digester := (\<lambda>w jobs.
            map (\<lambda>j. \<lparr> res_err = None, res_sum = ''000'', res_expected = job_expected j \<rparr>) jobs) \<rparr>"

definition broken_object :: Object where
  "broken_object =
     \<lparr> obj_Path = ''/obj'',
       inventory = example_inventory
         \<lparr> ID := [],
           Versions := Some [(''v1'', example_version \<lparr> State := Some [(''abc'', [''a.txt'', ''b.txt''])] \<rparr>)] \<rparr> \<rparr>"

text \<open>Two results of the digester that do not match what the manifest expects.\<close>

definition bad_results :: "checksumResult list" where
  "bad_results =
     [\<lparr> res_err = None, res_sum = ''000'', res_expected = ''abc'' \<rparr>,
      \<lparr> res_err = None, res_sum = ''111'', res_expected = ''def'' \<rparr>]"

text \<open>The example world in which the inventory cannot be written in the version directory.\<close>

definition unwritable_world :: World where
  "unwritable_world = (staged_world True) \<lparr> faults := [(''/obj/v2/inventory.json'', ErrPermission)] \<rparr>"

section \<open>Properties of the object reader\<close>

lemma GetDigest_unbound: "\<not> in_state m p \<Longrightarrow> GetDigest m p = ''''"
  by (induction m) (auto simp: in_state_def)

lemma GetDigest_bound:
  "GetDigest m p = d \<Longrightarrow> d \<noteq> '''' \<Longrightarrow> bound_to m p d"
  by (induction m) (auto simp: bound_to_def split: if_splits)

lemma bound_to_in_state: "bound_to m p d \<Longrightarrow> in_state m p"
  by (auto simp: bound_to_def in_state_def)

lemma GetDigest_of_bound:
  "bound_to m p d \<Longrightarrow> bound_to m p (GetDigest m p)"
proof (induction m)
  case Nil
  then show ?case by (simp add: bound_to_def)
next
  case (Cons x m)
  obtain dx psx where x: "x = (dx, psx)" by (cases x)
  show ?case
  proof (cases "p \<in> set psx")
    case True
    then show ?thesis using x by (auto simp: bound_to_def)
  next
    case False
    with Cons.prems x have "bound_to m p d" by (auto simp: bound_to_def)
    then have "bound_to m p (GetDigest m p)" by (rule Cons.IH)
    then show ?thesis using x False by (auto simp: bound_to_def)
  qed
qed

lemma GetDigest_CM1:
  assumes "CM1 m" and "bound_to m p d"
  shows "GetDigest m p = d"
  using assms GetDigest_of_bound [OF assms(2)] unfolding CM1_def by blast

text \<open>
  C8.  \<open>readDeclaration\<close> returns an error wrapping \<open>E003\<close> when the declaration
  file \<open>0=ocfl_object_1.0\<close> does not exist, an error wrapping \<open>E007\<close> when the file
  exists and its whole content is not the bytes \<open>ocfl_object_1.0\<close> followed by a line
  feed, and nil when the content is exactly that.
\<close>

theorem readDeclaration_cases:
  "(declaration_missing rt \<longrightarrow>
      (\<exists>e. readDeclaration rt = Some e \<and> errors_Is e ErrE003))
   \<and> (\<forall>c. declaration_content rt = Some c \<and> c \<noteq> Bytes (''ocfl_object_1.0'' @ [CHR 0x0A]) \<longrightarrow>
      (\<exists>e. readDeclaration rt = Some e \<and> errors_Is e ErrE007))
   \<and> (declaration_content rt = Some (Bytes (''ocfl_object_1.0'' @ [CHR 0x0A])) \<longrightarrow>
      readDeclaration rt = None)"
  by (auto simp: readDeclaration_def declaration_missing_def declaration_content_def
        objectDeclaration_def ocflVersion_def ErrE003_def ErrE007_def split: sum.splits)

theorem readDeclaration_cases_witness:
  "declaration_missing empty_root
   \<and> (\<exists>e. readDeclaration empty_root = Some e \<and> errors_Is e ErrE003)
   \<and> declaration_content (declared_root ''ocfl_object_1.0'') = Some (Bytes ''ocfl_object_1.0'')
   \<and> (\<exists>e. readDeclaration (declared_root ''ocfl_object_1.0'') = Some e \<and> errors_Is e ErrE007)
   \<and> declaration_content (declared_root (''ocfl_object_1.0'' @ [CHR 0x0A]))
        = Some (Bytes (''ocfl_object_1.0'' @ [CHR 0x0A]))
   \<and> readDeclaration (declared_root (''ocfl_object_1.0'' @ [CHR 0x0A])) = None"
proof -
  have m: "declaration_missing empty_root"
    by (simp add: declaration_missing_def empty_root_def)
  have c1: "declaration_content (declared_root ''ocfl_object_1.0'') = Some (Bytes ''ocfl_object_1.0'')"
    by (simp add: declaration_content_def declared_root_def objectDeclarationFile_def
          ocflVersion_def)
  have c2: "declaration_content (declared_root (''ocfl_object_1.0'' @ [CHR 0x0A]))
        = Some (Bytes (''ocfl_object_1.0'' @ [CHR 0x0A]))"
    by (simp add: declaration_content_def declared_root_def objectDeclarationFile_def
          ocflVersion_def)
  have n: "Bytes ''ocfl_object_1.0'' \<noteq> Bytes (''ocfl_object_1.0'' @ [CHR 0x0A])" by simp
  from readDeclaration_cases [of empty_root] m
  have r1: "\<exists>e. readDeclaration empty_root = Some e \<and> errors_Is e ErrE003" by blast
  from readDeclaration_cases [of "declared_root ''ocfl_object_1.0''"] c1 n
  have r2: "\<exists>e. readDeclaration (declared_root ''ocfl_object_1.0'') = Some e \<and> errors_Is e ErrE007"
    by blast
  from readDeclaration_cases [of "declared_root (''ocfl_object_1.0'' @ [CHR 0x0A])"] c2
  have r3: "readDeclaration (declared_root (''ocfl_object_1.0'' @ [CHR 0x0A])) = None"
    by blast
  from m r1 c1 r2 c2 r3 show ?thesis by blast
qed

text \<open>
  C7.  For a version name present in the inventory, \<open>VersionFS\<close> returns a filesystem
  whose open of a logical path \<open>lp\<close> looks \<open>lp\<close>'s digest up in that version's state
  (the digest found is one the state binds \<open>lp\<close> to, the only one under CM-1) and
  opens the first manifest path bound to that digest in the root filesystem; a path
  that is not in the state gives an error for which \<open>errors.Is(err, fs.ErrNotExist)\<close>
  holds, and a digest with no manifest entries gives an error.  (A digest is the hex
  encoding of a hash, hence not the empty string.)
\<close>

theorem VersionFS_resolves:
  assumes "map_of (entries (Versions (Inventory obj))) vname = Some v"
  shows "\<exists>opn. VersionFS obj vname = Inr opn \<and>
    (\<forall>lp. (\<not> in_state (entries (State v)) lp \<longrightarrow>
              (\<exists>e. opn lp = Inl e \<and> errors_Is e ErrNotExist))
        \<and> (in_state (entries (State v)) lp \<longrightarrow>
              bound_to (entries (State v)) lp (GetDigest (entries (State v)) lp)
              \<and> (\<forall>d. CM1 (entries (State v)) \<and> bound_to (entries (State v)) lp d \<longrightarrow>
                     GetDigest (entries (State v)) lp = d)
              \<and> (GetDigest (entries (State v)) lp \<noteq> [] \<longrightarrow>
                   (case map_of (entries (Manifest (Inventory obj)))
                           (GetDigest (entries (State v)) lp) of
                      Some (p # ps) \<Rightarrow> opn lp = root obj p
                    | _ \<Rightarrow> (\<exists>e. opn lp = Inl e)))))"
proof -
  let ?st = "entries (State v)"
  have v: "VersionFS obj vname = Inr (version_open obj v)"
    using assms(1) by (simp add: VersionFS_def)
  have a: "\<exists>e. version_open obj v lp = Inl e \<and> errors_Is e ErrNotExist"
    if "\<not> in_state ?st lp" for lp
    using GetDigest_unbound [OF that] by (simp add: version_open_def)
  have b: "bound_to ?st lp (GetDigest ?st lp)" if "in_state ?st lp" for lp
  proof -
    from that obtain d where "bound_to ?st lp d"
      by (auto simp: in_state_def bound_to_def)
    then show ?thesis by (rule GetDigest_of_bound)
  qed
  have c: "GetDigest ?st lp = d" if "CM1 ?st \<and> bound_to ?st lp d" for lp d
    using that GetDigest_CM1 by blast
  have d: "(case map_of (entries (Manifest (Inventory obj))) (GetDigest ?st lp) of
                 Some (p # ps) \<Rightarrow> version_open obj v lp = root obj p
               | _ \<Rightarrow> (\<exists>e. version_open obj v lp = Inl e))"
    if "GetDigest ?st lp \<noteq> []" for lp
    using that by (simp add: version_open_def FromSlash_def split: option.splits list.splits)
  from v a b c d show ?thesis by blast
qed

theorem VersionFS_resolves_witness:
  "map_of (entries (Versions (Inventory example_reader))) ''v1'' = Some example_version
   \<and> CM1 (entries (State example_version))
   \<and> (\<exists>opn. VersionFS example_reader ''v1'' = Inr opn
        \<and> GetDigest (entries (State example_version)) ''b.txt'' = ''abc''
        \<and> opn ''b.txt'' = Inr (FsFile (Inr (Bytes ''hello'')))
        \<and> (\<exists>e. opn ''zzz.txt'' = Inl e \<and> errors_Is e ErrNotExist)
        \<and> (\<exists>e. opn ''c.txt'' = Inl e))"
proof -
  let ?st = "entries (State example_version)"
  have h1: "map_of (entries (Versions (Inventory example_reader))) ''v1'' = Some example_version"
    by (simp add: example_reader_def example_inventory_def entries_def)
  have st: "?st = [(''abc'', [''a.txt'', ''b.txt'']), (''def'', [''c.txt''])]"
    by (simp add: example_version_def entries_def)
  have h2: "CM1 ?st"
    unfolding st CM1_def bound_to_def by auto
  have z: "\<not> in_state ?st ''zzz.txt''"
    unfolding st in_state_def by simp
  have ib: "in_state ?st ''b.txt''" and ic: "in_state ?st ''c.txt''"
    unfolding st in_state_def by simp_all
  have bb: "bound_to ?st ''b.txt'' ''abc''" and bc: "bound_to ?st ''c.txt'' ''def''"
    unfolding st bound_to_def by simp_all
  have mb: "map_of (entries (Manifest (Inventory example_reader))) ''abc'' = Some [''v1/content/a.txt'']"
    by (simp add: example_reader_def example_inventory_def entries_def)
  have mc: "map_of (entries (Manifest (Inventory example_reader))) ''def'' = None"
    by (simp add: example_reader_def example_inventory_def entries_def)
  have r: "root example_reader ''v1/content/a.txt'' = Inr (FsFile (Inr (Bytes ''hello'')))"
    by (simp add: example_reader_def example_content_root_def)
  from VersionFS_resolves [OF h1] obtain opn where
    o: "VersionFS example_reader ''v1'' = Inr opn"
    and nx: "\<And>lp. \<not> in_state ?st lp \<Longrightarrow> \<exists>e. opn lp = Inl e \<and> errors_Is e ErrNotExist"
    and un: "\<And>lp d. in_state ?st lp \<Longrightarrow> CM1 ?st \<and> bound_to ?st lp d \<Longrightarrow>
              GetDigest ?st lp = d"
    and bd: "\<And>lp. in_state ?st lp \<Longrightarrow> GetDigest ?st lp \<noteq> [] \<Longrightarrow>
              (case map_of (entries (Manifest (Inventory example_reader))) (GetDigest ?st lp) of
                 Some (p # ps) \<Rightarrow> opn lp = root example_reader p
               | _ \<Rightarrow> (\<exists>e. opn lp = Inl e))"
    by blast
  have gb: "GetDigest ?st ''b.txt'' = ''abc''" using un [OF ib] h2 bb by blast
  have gc: "GetDigest ?st ''c.txt'' = ''def''" using un [OF ic] h2 bc by blast
  from bd [OF ib] gb mb r have ob: "opn ''b.txt'' = Inr (FsFile (Inr (Bytes ''hello'')))" by simp
  from bd [OF ic] gc mc have oc: "\<exists>e. opn ''c.txt'' = Inl e" by simp
  from h1 h2 o gb ob nx [OF z] oc show ?thesis by blast
qed

section \<open>Properties of paths\<close>







section \<open>Properties of the stage\<close>




text \<open>
  C6.  \<open>Rename(src, dst)\<close> returns nil exactly when the rename in the scratch
  directory (carried out when \<open>src\<close> is staged) succeeds, or \<open>src\<close> is not staged
  and the rename in the state succeeds.  A failed rename in the scratch directory is
  returned as the error, with nothing changed and the rename in the state not
  attempted; after a successful one the call returns nil, keeps the change in the
  scratch directory and leaves the state as the rename in the state left it, whatever
  that rename gives; when \<open>src\<close> is not staged the call returns what the rename in the
  state gives.
\<close>

theorem Rename_result:
  "(fst (Rename w stage src dst) = None)
     = (fs_rename_succeeds w stage src dst
        \<or> (\<not> isStaged w stage src \<and> state_rename_succeeds stage src dst))
   \<and> (fs_rename_fails w stage src dst \<longrightarrow>
        Rename w stage src dst
          = (fst (os_Rename w (fullPath stage src) (fullPath stage dst)), w, stage))
   \<and> (fs_rename_succeeds w stage src dst \<longrightarrow>
        Rename w stage src dst
          = (None, snd (os_Rename w (fullPath stage src) (fullPath stage dst)),
             state_renamed stage src dst))
   \<and> (\<not> isStaged w stage src \<longrightarrow>
        Rename w stage src dst
          = (fst (cm_Rename src dst (StageState stage)), w, state_renamed stage src dst))"
proof (cases "isStaged w stage src")
  case False
  then show ?thesis
    by (cases "cm_Rename src dst (StageState stage)")
       (auto simp: Rename_def fs_rename_succeeds_def fs_rename_fails_def
          state_rename_succeeds_def state_renamed_def Let_def split: if_splits)
next
  case True
  obtain r w' where o: "os_Rename w (fullPath stage src) (fullPath stage dst) = (r, w')"
    by (cases "os_Rename w (fullPath stage src) (fullPath stage dst)")
  show ?thesis
  proof (cases r)
    case None
    with True o show ?thesis
      by (cases "cm_Rename src dst (StageState stage)")
         (auto simp: Rename_def fs_rename_succeeds_def fs_rename_fails_def
            state_rename_succeeds_def state_renamed_def Let_def split: if_splits)
  next
    case (Some e)
    have "w' = w"
      using o Some
      by (auto simp: os_Rename_def syscall_Rename_def split: if_splits option.splits prod.splits)
    with True o Some show ?thesis
      by (auto simp: Rename_def fs_rename_succeeds_def fs_rename_fails_def
            state_rename_succeeds_def state_renamed_def Let_def split: if_splits)
  qed
qed

theorem Rename_result_witness:
  "fs_rename_succeeds (staged_world True) staged_stage ''new.txt'' ''newer.txt''
   \<and> \<not> state_rename_succeeds staged_stage ''new.txt'' ''newer.txt''
   \<and> fst (Rename (staged_world True) staged_stage ''new.txt'' ''newer.txt'') = None
   \<and> node_at (fst (snd (Rename (staged_world True) staged_stage ''new.txt'' ''newer.txt'')))
        ''/obj/stage123/newer.txt'' = Some (RegularFile True (Bytes ''new''))
   \<and> StageState (snd (snd (Rename (staged_world True) staged_stage ''new.txt'' ''newer.txt'')))
        = StageState staged_stage
   \<and> fs_rename_fails (staged_world True) staged_stage ''new.txt'' ''missing/newer.txt''
   \<and> fst (Rename (staged_world True) staged_stage ''new.txt'' ''missing/newer.txt'')
        = Some (LinkError ''rename'' ''/obj/stage123/new.txt'' ''/obj/stage123/missing/newer.txt''
                  ErrNotExist)
   \<and> node_at (fst (snd (Rename (staged_world True) staged_stage ''new.txt'' ''missing/newer.txt'')))
        ''/obj/stage123/new.txt'' = Some (RegularFile True (Bytes ''new''))
   \<and> \<not> isStaged (staged_world True) staged_stage ''c.txt''
   \<and> state_rename_succeeds staged_stage ''c.txt'' ''d.txt''
   \<and> fst (Rename (staged_world True) staged_stage ''c.txt'' ''d.txt'') = None
   \<and> StageState (snd (snd (Rename (staged_world True) staged_stage ''c.txt'' ''d.txt'')))
        = Some [(''abc'', [''a.txt'', ''b.txt'']), (''def'', [''d.txt''])]
   \<and> \<not> isStaged (staged_world True) staged_stage ''x.txt''
   \<and> fst (Rename (staged_world True) staged_stage ''x.txt'' ''y.txt'') = Some NotFound"
proof -
  let ?w = "staged_world True"
  have a: "fs_rename_succeeds ?w staged_stage ''new.txt'' ''newer.txt''" by code_simp
  have b: "\<not> state_rename_succeeds staged_stage ''new.txt'' ''newer.txt''" by code_simp
  have c: "node_at (snd (os_Rename ?w (fullPath staged_stage ''new.txt'')
               (fullPath staged_stage ''newer.txt'')))
        ''/obj/stage123/newer.txt'' = Some (RegularFile True (Bytes ''new''))"
    by code_simp
  have c': "StageState (state_renamed staged_stage ''new.txt'' ''newer.txt'')
        = StageState staged_stage"
    by code_simp
  have d: "fs_rename_fails ?w staged_stage ''new.txt'' ''missing/newer.txt''" by code_simp
  have e: "fst (os_Rename ?w (fullPath staged_stage ''new.txt'')
               (fullPath staged_stage ''missing/newer.txt''))
        = Some (LinkError ''rename'' ''/obj/stage123/new.txt'' ''/obj/stage123/missing/newer.txt''
                  ErrNotExist)"
    by code_simp
  have e': "node_at ?w ''/obj/stage123/new.txt'' = Some (RegularFile True (Bytes ''new''))"
    by code_simp
  have f: "\<not> isStaged ?w staged_stage ''c.txt''" by code_simp
  have g: "state_rename_succeeds staged_stage ''c.txt'' ''d.txt''" by code_simp
  have g': "fst (cm_Rename ''c.txt'' ''d.txt'' (StageState staged_stage)) = None" by code_simp
  have g'': "StageState (state_renamed staged_stage ''c.txt'' ''d.txt'')
        = Some [(''abc'', [''a.txt'', ''b.txt'']), (''def'', [''d.txt''])]"
    by code_simp
  have h: "\<not> isStaged ?w staged_stage ''x.txt''" by code_simp
  have h': "fst (cm_Rename ''x.txt'' ''y.txt'' (StageState staged_stage)) = Some NotFound"
    by code_simp
  note r1 = Rename_result [of ?w staged_stage "''new.txt''" "''newer.txt''"]
  note r2 = Rename_result [of ?w staged_stage "''new.txt''" "''missing/newer.txt''"]
  note r3 = Rename_result [of ?w staged_stage "''c.txt''" "''d.txt''"]
  note r4 = Rename_result [of ?w staged_stage "''x.txt''" "''y.txt''"]
  from r1 a have "Rename ?w staged_stage ''new.txt'' ''newer.txt''
      = (None, snd (os_Rename ?w (fullPath staged_stage ''new.txt'')
                      (fullPath staged_stage ''newer.txt'')),
         state_renamed staged_stage ''new.txt'' ''newer.txt'')"
    by blast
  with c c' have s1: "fst (Rename ?w staged_stage ''new.txt'' ''newer.txt'') = None
      \<and> node_at (fst (snd (Rename ?w staged_stage ''new.txt'' ''newer.txt'')))
            ''/obj/stage123/newer.txt'' = Some (RegularFile True (Bytes ''new''))
      \<and> StageState (snd (snd (Rename ?w staged_stage ''new.txt'' ''newer.txt'')))
            = StageState staged_stage"
    by simp
  from r2 d have "Rename ?w staged_stage ''new.txt'' ''missing/newer.txt''
      = (fst (os_Rename ?w (fullPath staged_stage ''new.txt'')
                (fullPath staged_stage ''missing/newer.txt'')), ?w, staged_stage)"
    by blast
  with e e' have s2: "fst (Rename ?w staged_stage ''new.txt'' ''missing/newer.txt'')
        = Some (LinkError ''rename'' ''/obj/stage123/new.txt'' ''/obj/stage123/missing/newer.txt''
                  ErrNotExist)
      \<and> node_at (fst (snd (Rename ?w staged_stage ''new.txt'' ''missing/newer.txt'')))
            ''/obj/stage123/new.txt'' = Some (RegularFile True (Bytes ''new''))"
    by simp
  from r3 f have "Rename ?w staged_stage ''c.txt'' ''d.txt''
      = (fst (cm_Rename ''c.txt'' ''d.txt'' (StageState staged_stage)), ?w,
         state_renamed staged_stage ''c.txt'' ''d.txt'')"
    by blast
  with g' g'' have s3: "fst (Rename ?w staged_stage ''c.txt'' ''d.txt'') = None
      \<and> StageState (snd (snd (Rename ?w staged_stage ''c.txt'' ''d.txt'')))
            = Some [(''abc'', [''a.txt'', ''b.txt'']), (''def'', [''d.txt''])]"
    by simp
  from r4 h have "Rename ?w staged_stage ''x.txt'' ''y.txt''
      = (fst (cm_Rename ''x.txt'' ''y.txt'' (StageState staged_stage)), ?w,
         state_renamed staged_stage ''x.txt'' ''y.txt'')"
    by blast
  with h' have s4: "fst (Rename ?w staged_stage ''x.txt'' ''y.txt'') = Some NotFound"
    by simp
  from a b s1 d s2 f g s3 h s4 show ?thesis by blast
qed

text \<open>
  The equivalence of the specification (nil exactly when at least one of the two
  renames succeeds) fails where \<open>src\<close> is staged and the rename in the scratch
  directory fails: the error is returned although the rename in the state succeeds on
  its own.  Here \<open>a.txt\<close> is staged and in the state, and the directory of the
  destination is missing; the state is left as it was.
\<close>

theorem Rename_fails_though_state_rename_succeeds:
  "isStaged restaged_world staged_stage ''a.txt''
   \<and> state_rename_succeeds staged_stage ''a.txt'' ''missing/z.txt''
   \<and> fst (Rename restaged_world staged_stage ''a.txt'' ''missing/z.txt'')
        = Some (LinkError ''rename'' ''/obj/stage123/a.txt'' ''/obj/stage123/missing/z.txt''
                  ErrNotExist)
   \<and> StageState (snd (snd (Rename restaged_world staged_stage ''a.txt'' ''missing/z.txt'')))
        = StageState staged_stage"
  by code_simp

text \<open>
  C4.  \<open>OpenFile\<close> is documented to create the staged file with all its parent
  directories and to return it open for reading and writing.  On a new stage the
  scratch directory is created first, so the parent of \<open>a.txt\<close> exists when it is
  examined: the call then returns no file and no error, and creates nothing.  Only a
  file whose parent directory is still missing is created and opened.
\<close>

theorem OpenFile_parent_exists:
  "(case OpenFile example_world example_stage ''a.txt'' of
      (r, w, s) \<Rightarrow>
        r = Returns (None, None) \<and> StagePath s = ''/obj/stage123''
        \<and> node_at w ''/obj/stage123'' = Some Directory
        \<and> node_at w ''/obj/stage123/a.txt'' = None)
   \<and> (case OpenFile example_world example_stage ''d/a.txt'' of
      (r, w, s) \<Rightarrow>
        r = Returns (Some (OsFile ''/obj/stage123/d/a.txt''), None)
        \<and> node_at w ''/obj/stage123/d/a.txt'' = Some (RegularFile True (Bytes [])))"
  by code_simp

text \<open>
  C1.  The walk function of \<open>Commit\<close> returns the error of a failed digest, and
  \<open>filepath.Walk\<close> returns it in turn, but \<open>Commit\<close> does not look at what the walk
  returns.  Here the staged file cannot be read: the walk over the new content directory
  ends with the permission error, and \<open>Commit\<close> returns nil, having written an
  inventory whose new version and manifest do not name the file that lies in the
  content directory.
\<close>

theorem Commit_drops_walk_error:
  "(case Commit example_helpers (staged_world False) staged_stage example_user ''add'' of
      (r, w, s) \<Rightarrow>
        r = Returns None
        \<and> node_at w ''/obj/v2/content/new.txt'' = Some (RegularFile False (Bytes ''new''))
        \<and> Checksum w ''sha512'' ''/obj/v2/content/new.txt''
             = Inl (PathError ''open'' ''/obj/v2/content/new.txt'' ErrPermission)
        \<and> fst (filepath_Walk w ''/obj/v2/content''
                  (commit_walk w example_object ''/obj/v2/content'')
                  (StageState staged_stage, Manifest example_inventory))
             = Some (PathError ''open'' ''/obj/v2/content/new.txt'' ErrPermission)
        \<and> map_option Head (map_option inventory (object s)) = Some ''v2''
        \<and> \<not> in_state (entries (StageState s)) ''new.txt''
        \<and> (case fresh_inventory w ''/obj'' of
              Inl e \<Rightarrow> False
            | Inr doc \<Rightarrow> Head doc = ''v2''
                \<and> GetDigest (entries (Manifest doc)) ''v2/content/new.txt'' = []))"
  by code_simp

section \<open>Properties of Commit\<close>

lemma commit_walk_keeps_state:
  "fst s \<noteq> None \<Longrightarrow> fst (snd (commit_walk w obj d v s)) \<noteq> None"
  by (cases v) (auto simp: commit_walk_def cm_AddReplace_def split: sum.splits)

lemma walk_run_keeps_state:
  "fst s \<noteq> None \<Longrightarrow> fst (snd (walk_run (commit_walk w obj d) vs s)) \<noteq> None"
proof (induction vs arbitrary: s)
  case Nil
  then show ?case by simp
next
  case (Cons v vs)
  obtain r s' where c: "commit_walk w obj d v s = (r, s')"
    by (cases "commit_walk w obj d v s")
  have s': "fst s' \<noteq> None"
    using commit_walk_keeps_state [OF Cons.prems, of w obj d v] c by simp
  show ?case
  proof (cases r)
    case None
    with c Cons.IH [OF s'] show ?thesis by simp
  next
    case (Some e)
    with c s' show ?thesis by simp
  qed
qed

lemma commit_content_keeps_state:
  assumes "commit_content w stage obj verDir = Inr (w2, st', man')"
    and "StageState stage \<noteq> None"
  shows "st' \<noteq> None"
proof -
  let ?s0 = "(StageState stage, Manifest (inventory obj))"
  have k: "fst (snd (filepath_Walk w1 d (commit_walk w1 obj d) ?s0)) \<noteq> None" for w1 d
    unfolding filepath_Walk_def using walk_run_keeps_state [of ?s0] assms(2) by simp
  from assms(1) have "st' = StageState stage
      \<or> (\<exists>w1 d. snd (filepath_Walk w1 d (commit_walk w1 obj d) ?s0) = (st', man'))"
    by (auto simp: commit_content_def Let_def split: if_splits sum.splits prod.splits option.splits)
  then show ?thesis
  proof
    assume "st' = StageState stage"
    with assms(2) show ?thesis by simp
  next
    assume "\<exists>w1 d. snd (filepath_Walk w1 d (commit_walk w1 obj d) ?s0) = (st', man')"
    then obtain w1 d where "snd (filepath_Walk w1 d (commit_walk w1 obj d) ?s0) = (st', man')"
      by blast
    then have "st' = fst (snd (filepath_Walk w1 d (commit_walk w1 obj d) ?s0))"
      by (metis fst_conv)
    with k show ?thesis by simp
  qed
qed

lemma map_of_replaced:
  "k \<in> fst ` set m \<Longrightarrow>
   map_of (map (\<lambda>(k', v'). if k' = k then (k', v) else (k', v')) m) k = Some v"
proof (induction m)
  case Nil
  then show ?case by simp
next
  case (Cons a m)
  obtain k' v' where a: "a = (k', v')" by (cases a)
  show ?case
  proof (cases "k' = k")
    case True
    with a show ?thesis by simp
  next
    case False
    with Cons.prems a have "k \<in> fst ` set m" by auto
    from Cons.IH [OF this] False a show ?thesis by simp
  qed
qed

lemma map_of_map_put: "map_of (map_put k v m) k = Some v"
proof (cases "k \<in> fst ` set m")
  case True
  with map_of_replaced [OF True] show ?thesis by (simp add: map_put_def)
next
  case False
  then have "map_of m k = None" by (simp add: map_of_eq_None_iff)
  with False show ?thesis by (simp add: map_put_def map_add_def)
qed

lemma commit_update_head:
  assumes "commit_update w stage obj nv user message = Some obj2"
  shows "Head (inventory obj2) = nv
    \<and> map_of (entries (Versions (inventory obj2))) nv = Some (commit_version w stage user message)"
  using assms
  by (auto simp: commit_update_def entries_def map_of_map_put split: option.splits)

lemma commit_steps_Inl:
  "commit_steps h w stage user message = Inl (r, w', stage') \<Longrightarrow> r \<noteq> Returns None"
  by (auto simp: commit_steps_def Let_def split: option.splits sum.splits prod.splits)

lemma commit_steps_Inr:
  assumes "commit_steps h w stage user message = Inr (w1, stage1, obj1, nv)"
  shows "StagePath stage1 = StagePath stage \<and> StageState stage1 \<noteq> None
    \<and> object stage1 = Some obj1 \<and> Head (inventory obj1) = nv
    \<and> (\<exists>v. map_of (entries (Versions (inventory obj1))) nv = Some v
            \<and> State v = StageState stage1)"
proof -
  from assms obtain obj state verDir w0 w2 st' man' where
    o: "object stage = Some obj" and s: "StageState stage = Some state"
    and c: "commit_content w0 stage obj verDir = Inr (w2, st', man')"
    and u: "commit_update w2 (stage\<lparr>StageState := st'\<rparr>)
              (obj\<lparr>inventory := (inventory obj)\<lparr>Manifest := man'\<rparr>\<rparr>) nv user message = Some obj1"
    and s1: "stage1 = stage\<lparr>StageState := st', object := Some obj1\<rparr>"
    by (auto simp: commit_steps_def Let_def split: option.splits sum.splits prod.splits)
  have st': "st' \<noteq> None"
    using commit_content_keeps_state [OF c] s by simp
  from commit_update_head [OF u] s1 st' show ?thesis
    by (simp add: commit_version_def cm_Copy_def)
qed

lemma map_of_replaced_other:
  "k' \<noteq> k \<Longrightarrow>
   map_of (map (\<lambda>(a, b). if a = k then (a, v) else (a, b)) m) k' = map_of m k'"
proof (induction m)
  case Nil
  then show ?case by simp
next
  case (Cons x m)
  obtain a b where x: "x = (a, b)" by (cases x)
  from Cons show ?case by (simp add: x)
qed

lemma map_of_map_put_other: "k' \<noteq> k \<Longrightarrow> map_of (map_put k v m) k' = map_of m k'"
  by (simp add: map_put_def map_of_replaced_other map_add_def split: option.splits)

lemma commit_update_versions:
  assumes "commit_update w stage obj nv user message = Some obj2"
  shows "map_of (entries (Versions (inventory obj2))) nv
           = Some (commit_version w stage user message)"
    and "k \<noteq> nv \<Longrightarrow>
         map_of (entries (Versions (inventory obj2))) k
           = map_of (entries (Versions (inventory obj))) k"
  using assms
  by (auto simp: commit_update_def entries_def map_of_map_put map_of_map_put_other
        split: option.splits)

lemma commit_steps_Inr_version:
  assumes "commit_steps h w stage user message = Inr (w1, stage1, obj1, nv)"
    and "object stage = Some obj"
  shows "\<exists>v. map_of (entries (Versions (inventory obj1))) nv = Some v
            \<and> State v = StageState stage1 \<and> User v = user \<and> Message v = message"
    and "k \<noteq> nv \<Longrightarrow>
         map_of (entries (Versions (inventory obj1))) k
           = map_of (entries (Versions (inventory obj))) k"
proof -
  from assms obtain w2 st' man' where
    u: "commit_update w2 (stage\<lparr>StageState := st'\<rparr>)
              (obj\<lparr>inventory := (inventory obj)\<lparr>Manifest := man'\<rparr>\<rparr>) nv user message = Some obj1"
    and s1: "stage1 = stage\<lparr>StageState := st', object := Some obj1\<rparr>"
    by (auto simp: commit_steps_def Let_def split: option.splits sum.splits prod.splits)
  from commit_update_versions(1) [OF u] s1
  show "\<exists>v. map_of (entries (Versions (inventory obj1))) nv = Some v
            \<and> State v = StageState stage1 \<and> User v = user \<and> Message v = message"
    by (simp add: commit_version_def cm_Copy_def)
  show "map_of (entries (Versions (inventory obj1))) k
           = map_of (entries (Versions (inventory obj))) k" if "k \<noteq> nv"
    using commit_update_versions(2) [OF u that] by simp
qed

text \<open>
  What every \<open>Commit\<close> that returns success leaves in the stage: the \<open>Path\<close> it
  had, and a \<open>State\<close> that is not nil, the one recorded for the new head version of
  the parent object.
\<close>

lemma Commit_keeps_stage:
  assumes "Commit h w stage user message = (Returns None, w', stage')"
  shows "StagePath stage' = StagePath stage \<and> StageState stage' \<noteq> None
    \<and> (\<exists>obj' v. object stage' = Some obj'
          \<and> map_of (entries (Versions (inventory obj'))) (Head (inventory obj')) = Some v
          \<and> State v = StageState stage')"
proof (cases "commit_steps h w stage user message")
  case (Inl r)
  obtain x wx sx where "r = (x, wx, sx)" by (cases r)
  with Inl assms commit_steps_Inl [of h w stage user message x wx sx]
  show ?thesis by (simp add: Commit_def)
next
  case (Inr r)
  obtain w1 stage1 obj1 nv where r: "r = (w1, stage1, obj1, nv)" by (cases r)
  with Inr assms have "stage' = stage1"
    by (simp add: Commit_def split: prod.splits)
  with commit_steps_Inr [OF Inr [unfolded r]] show ?thesis by auto
qed

text \<open>
  C5.  After a \<open>Commit\<close> that returns success the stage is to be cleared, which is
  what \<open>clear\<close> does: the scratch directory removed, \<open>Path\<close> emptied and
  \<open>State\<close> reset to nil.  \<open>Commit\<close> does not call \<open>clear\<close>.  After the
  successful commit of a staged file the scratch directory is consumed (it was renamed
  to the content directory of the new version), but the stage still names it and
  still holds its state, where \<open>clear\<close> would have left neither; after the
  successful commit of a stage whose scratch directory is empty, that directory is
  still on disk as well.
\<close>

theorem Commit_stage_not_cleared:
  "(case Commit example_helpers (staged_world True) staged_stage example_user ''add'' of
      (r, w, s) \<Rightarrow>
        r = Returns None
        \<and> node_at w ''/obj/stage123'' = None
        \<and> node_at w ''/obj/v2/content/new.txt'' = Some (RegularFile True (Bytes ''new''))
        \<and> StagePath s = ''/obj/stage123''
        \<and> StageState s = Some [(''abc'', [''a.txt'', ''b.txt'']), (''def'', [''c.txt'']),
                                (''sha512:new'', [''new.txt''])]
        \<and> StagePath (snd (clear w s)) = []
        \<and> StageState (snd (clear w s)) = None)
   \<and> (case Commit example_helpers opened_world opened_stage example_user ''add'' of
      (r, w, s) \<Rightarrow>
        r = Returns None
        \<and> node_at w ''/obj/stage123'' = Some Directory
        \<and> StagePath s = ''/obj/stage123''
        \<and> StageState s = Some [(''abc'', [''a.txt'', ''b.txt'']), (''def'', [''c.txt''])]
        \<and> node_at (fst (clear w s)) ''/obj/stage123'' = None
        \<and> StagePath (snd (clear w s)) = []
        \<and> StageState (snd (clear w s)) = None)"
  by code_simp

section \<open>What the operations of a commit leave alone\<close>

lemma map_of_filter_keys:
  "map_of (filter (\<lambda>(a, n). P a) ns) k = (if P k then map_of ns k else None)"
proof (induction ns)
  case Nil
  then show ?case by simp
next
  case (Cons x ns)
  obtain a n where x: "x = (a, n)" by (cases x)
  show ?case
  proof (cases "P a")
    case True
    with Cons x show ?thesis by (cases "a = k") simp_all
  next
    case False
    with Cons x show ?thesis by (cases "a = k") simp_all
  qed
qed

lemma map_of_put_node:
  "map_of (put_node k n ns) k' = (if k' = k then Some n else map_of ns k')"
  by (auto simp: put_node_def map_of_filter_keys map_add_def split: option.splits)

lemma under_self: "under d d"
  by (simp add: under_def)

lemma rekey_under: "under src a \<Longrightarrow> under dst (rekey src dst a)"
  by (auto simp: rekey_def under_def)

lemma rekey_other: "\<not> under src a \<Longrightarrow> rekey src dst a = a"
  by (auto simp: rekey_def under_def)

lemma map_of_move_nodes:
  assumes "\<not> under src k" and "\<not> under dst k"
  shows "map_of (move_nodes src dst ns) k = map_of ns k"
proof (induction ns)
  case Nil
  then show ?case by (simp add: move_nodes_def)
next
  case (Cons x ns)
  obtain a n where x: "x = (a, n)" by (cases x)
  show ?case
  proof (cases "under dst a")
    case True
    with assms(2) have "a \<noteq> k" by auto
    moreover have "move_nodes src dst (x # ns) = move_nodes src dst ns"
      using True x by (simp add: move_nodes_def)
    ultimately show ?thesis using Cons x by simp
  next
    case False
    have m: "move_nodes src dst (x # ns) = (rekey src dst a, n) # move_nodes src dst ns"
      using False x by (simp add: move_nodes_def)
    show ?thesis
    proof (cases "under src a")
      case True
      with assms(1) have "a \<noteq> k" by auto
      moreover have "rekey src dst a \<noteq> k"
        using rekey_under [OF True, of dst] assms(2) by auto
      ultimately show ?thesis using m Cons x by simp
    next
      case False
      with m Cons x rekey_other [OF False, of dst] show ?thesis by simp
    qed
  qed
qed

lemma same_at_refl: "same_at w w k"
  by (simp add: same_at_def)

lemma same_at_trans: "same_at w w1 k \<Longrightarrow> same_at w1 w2 k \<Longrightarrow> same_at w w2 k"
  by (simp add: same_at_def)

lemma same_at_abspath: "same_at w w' k \<Longrightarrow> abspath w' p = abspath w p"
  by (simp add: same_at_def abspath_def)

lemma os_Mkdir_frame:
  "os_Mkdir w name = (r, w') \<Longrightarrow> k \<noteq> abspath w name \<Longrightarrow> same_at w w' k"
  by (auto simp: os_Mkdir_def same_at_def map_of_put_node split: option.splits)

lemma syscall_Rename_frame:
  "syscall_Rename w a b = (r, w') \<Longrightarrow> \<not> under (abspath w a) k \<Longrightarrow> \<not> under (abspath w b) k
   \<Longrightarrow> same_at w w' k"
  by (auto simp: syscall_Rename_def same_at_def map_of_move_nodes split: if_splits option.splits)

lemma os_Rename_frame:
  assumes "os_Rename w a b = (r, w')"
    and "\<not> under (abspath w a) k" and "\<not> under (abspath w b) k"
  shows "same_at w w' k"
proof (cases "rename_refused w a b")
  case (Some e)
  with assms(1) have "w' = w" by (simp add: os_Rename_def)
  then show ?thesis by (simp add: same_at_refl)
next
  case None
  obtain r0 w0 where s: "syscall_Rename w a b = (r0, w0)"
    by (cases "syscall_Rename w a b")
  with assms(1) None have "w' = w0"
    by (cases r0) (simp_all add: os_Rename_def)
  with syscall_Rename_frame [OF s assms(2,3)] show ?thesis by simp
qed

lemma write_file_frame:
  "write_file w name c = (r, w') \<Longrightarrow> k \<noteq> abspath w name \<Longrightarrow> same_at w w' k"
  by (auto simp: write_file_def same_at_def map_of_put_node split: if_splits option.splits)

lemma write_file_done:
  "write_file w name c = (None, w') \<Longrightarrow>
   fault_of w name = None \<and> cwd w' = cwd w \<and> faults w' = faults w
   \<and> map_of (nodes w') (abspath w name) = Some (RegularFile True c)"
  by (auto simp: write_file_def map_of_put_node split: if_splits option.splits)

lemma write_inventory_frame:
  assumes "write_inventory w dir doc = (r, w')"
    and "k \<noteq> abspath w (Join [dir, ''inventory.json''])"
    and "k \<noteq> abspath w (Join [dir, ''inventory.json''] @ ''.'' @ DigestAlgorithm doc)"
  shows "same_at w w' k"
proof -
  let ?t = "Join [dir, ''inventory.json'']"
  obtain r1 w1 where f: "write_file w ?t (InventoryDoc doc) = (r1, w1)"
    by (cases "write_file w ?t (InventoryDoc doc)")
  have s1: "same_at w w1 k" using write_file_frame [OF f assms(2)] .
  show ?thesis
  proof (cases r1)
    case (Some e)
    with assms(1) f have "w' = w1" by (simp add: write_inventory_def)
    with s1 show ?thesis by simp
  next
    case None
    let ?c = "Bytes (hash_of w (DigestAlgorithm doc) (InventoryDoc doc) @ ''  inventory.json'' @ [CHR 0x0A])"
    from assms(1) f None
    have g: "write_file w1 (?t @ ''.'' @ DigestAlgorithm doc) ?c = (r, w')"
      by (simp add: write_inventory_def)
    have "k \<noteq> abspath w1 (?t @ ''.'' @ DigestAlgorithm doc)"
      using assms(3) same_at_abspath [OF s1] by simp
    from same_at_trans [OF s1 write_file_frame [OF g this]] show ?thesis .
  qed
qed

lemma write_inventory_done:
  assumes "write_inventory w dir doc = (None, w')"
    and "abspath w (Join [dir, ''inventory.json''])
           \<noteq> abspath w (Join [dir, ''inventory.json''] @ ''.'' @ DigestAlgorithm doc)"
  shows "fault_of w' (Join [dir, ''inventory.json'']) = None
    \<and> node_at w' (Join [dir, ''inventory.json'']) = Some (RegularFile True (InventoryDoc doc))"
proof -
  let ?t = "Join [dir, ''inventory.json'']"
  let ?c = "Bytes (hash_of w (DigestAlgorithm doc) (InventoryDoc doc) @ ''  inventory.json'' @ [CHR 0x0A])"
  obtain r1 w1 where f: "write_file w ?t (InventoryDoc doc) = (r1, w1)"
    by (cases "write_file w ?t (InventoryDoc doc)")
  from assms(1) f have r1: "r1 = None"
    by (cases r1) (simp_all add: write_inventory_def)
  from assms(1) f r1
  have g: "write_file w1 (?t @ ''.'' @ DigestAlgorithm doc) ?c = (None, w')"
    by (simp add: write_inventory_def)
  note d = write_file_done [OF f [unfolded r1]]
  have a1: "abspath w1 p = abspath w p" for p
    using d by (simp add: abspath_def)
  have "abspath w ?t \<noteq> abspath w1 (?t @ ''.'' @ DigestAlgorithm doc)"
    using assms(2) a1 by simp
  from write_file_frame [OF g this] have s: "same_at w1 w' (abspath w ?t)" .
  have a2: "abspath w' p = abspath w p" for p
    using same_at_abspath [OF s] a1 by simp
  from s d a2 show ?thesis
    by (auto simp: same_at_def fault_of_def node_at_def split: if_splits)
qed

lemma commit_content_frame:
  assumes "commit_content w stage obj verDir = Inl (e, w')
           \<or> commit_content w stage obj verDir = Inr (w', st', man')"
    and "StagePath stage \<noteq> [] \<Longrightarrow>
         \<not> under (abspath w (StagePath stage)) k \<and> \<not> under (abspath w (Join [verDir, ''content''])) k"
  shows "same_at w w' k"
proof (cases "StagePath stage = []")
  case True
  with assms(1) show ?thesis by (auto simp: commit_content_def same_at_refl)
next
  case False
  note u = assms(2) [OF False]
  show ?thesis
  proof (cases "ioutil_ReadDir w (StagePath stage)")
    case (Inl err)
    with assms(1) False show ?thesis by (auto simp: commit_content_def same_at_refl)
  next
    case (Inr newFiles)
    show ?thesis
    proof (cases "length newFiles > 0")
      case False
      with assms(1) Inr \<open>StagePath stage \<noteq> []\<close> show ?thesis
        by (auto simp: commit_content_def same_at_refl)
    next
      case True
      obtain r w1 where o: "os_Rename w (StagePath stage) (Join [verDir, ''content'']) = (r, w1)"
        by (cases "os_Rename w (StagePath stage) (Join [verDir, ''content''])")
      have s: "same_at w w1 k"
        using os_Rename_frame [OF o] u by simp
      from assms(1) Inr True o \<open>StagePath stage \<noteq> []\<close> have "w' = w1"
        by (cases r) (auto simp: commit_content_def Let_def split: prod.splits)
      with s show ?thesis by simp
    qed
  qed
qed

section \<open>Atomicity of Commit\<close>

lemma commit_update_keeps:
  "commit_update w stage obj nv user message = Some obj2 \<Longrightarrow>
   obj_Path obj2 = obj_Path obj
   \<and> DigestAlgorithm (inventory obj2) = DigestAlgorithm (inventory obj)"
  by (auto simp: commit_update_def split: option.splits)

lemma commit_steps_frame:
  assumes cs: "commit_steps h w stage user message = Inl (r, w', stage')
               \<or> commit_steps h w stage user message = Inr (w', stage1, obj1, nv1)"
    and o: "object stage = Some obj" and n: "nextVersion h obj = Inr nv"
    and k1: "k \<noteq> abspath w (Join [obj_Path obj, nv])"
    and k2: "StagePath stage \<noteq> [] \<Longrightarrow>
             \<not> under (abspath w (StagePath stage)) k
             \<and> \<not> under (abspath w (Join [Join [obj_Path obj, nv], ''content''])) k"
    and k3: "k \<noteq> abspath w (Join [Join [obj_Path obj, nv], ''inventory.json''])"
    and k4: "k \<noteq> abspath w (Join [Join [obj_Path obj, nv], ''inventory.json''] @ ''.''
                              @ DigestAlgorithm (inventory obj))"
  shows "same_at w w' k
    \<and> (commit_steps h w stage user message = Inr (w', stage1, obj1, nv1) \<longrightarrow>
         nv1 = nv \<and> obj_Path obj1 = obj_Path obj
         \<and> DigestAlgorithm (inventory obj1) = DigestAlgorithm (inventory obj))"
proof (cases "StageState stage")
  case None
  with cs o show ?thesis by (auto simp: commit_steps_def same_at_refl)
next
  case (Some state)
  let ?verDir = "Join [obj_Path obj, nv]"
  obtain rm w1 where m: "os_Mkdir w ?verDir = (rm, w1)"
    by (cases "os_Mkdir w ?verDir")
  have s1: "same_at w w1 k" using os_Mkdir_frame [OF m k1] .
  note a1 = same_at_abspath [OF s1]
  show ?thesis
  proof (cases rm)
    case (Some err)
    with cs o n \<open>StageState stage = Some state\<close> m s1 show ?thesis
      by (auto simp: commit_steps_def Let_def)
  next
    case None
    show ?thesis
    proof (cases "commit_content w1 stage obj ?verDir")
      case (Inl x)
      obtain err w2 where x: "x = (err, w2)" by (cases x)
      have "same_at w1 w2 k"
        using commit_content_frame [of w1 stage obj ?verDir err w2 _ _ k] Inl x k2 a1 by simp
      with s1 have "same_at w w2 k" by (rule same_at_trans)
      with cs o n \<open>StageState stage = Some state\<close> m None Inl x show ?thesis
        by (auto simp: commit_steps_def Let_def)
    next
      case (Inr y)
      obtain w2 st' man' where y: "y = (w2, st', man')" by (cases y)
      have "same_at w1 w2 k"
        using commit_content_frame [of w1 stage obj ?verDir _ w2 st' man' k] Inr y k2 a1 by simp
      with s1 have s2: "same_at w w2 k" by (rule same_at_trans)
      note a2 = same_at_abspath [OF s2]
      let ?stage1 = "stage\<lparr>StageState := st'\<rparr>"
      let ?obj1 = "obj\<lparr>inventory := (inventory obj)\<lparr>Manifest := man'\<rparr>\<rparr>"
      show ?thesis
      proof (cases "commit_update w2 ?stage1 ?obj1 nv user message")
        case None
        with cs o n \<open>StageState stage = Some state\<close> m \<open>rm = None\<close> Inr y s2 show ?thesis
          by (auto simp: commit_steps_def Let_def)
      next
        case (Some obj2)
        from commit_update_keeps [OF Some]
        have p2: "obj_Path obj2 = obj_Path obj"
          and d2: "DigestAlgorithm (inventory obj2) = DigestAlgorithm (inventory obj)"
          by simp_all
        obtain rv w3 where v: "writeInventoryVersion w2 obj2 nv = (rv, w3)"
          by (cases "writeInventoryVersion w2 obj2 nv")
        have "same_at w2 w3 k"
          using write_inventory_frame [of w2 ?verDir "inventory obj2" rv w3 k] v k3 k4 a2 p2 d2
          by (simp add: writeInventoryVersion_def)
        with s2 have s3: "same_at w w3 k" by (rule same_at_trans)
        from cs o n \<open>StageState stage = Some state\<close> m \<open>rm = None\<close> Inr y Some v s3 p2 d2
        show ?thesis
          by (cases rv) (auto simp: commit_steps_def Let_def)
      qed
    qed
  qed
qed

lemma through_file_same:
  assumes "\<And>a. a \<in> set (parents [] (abspath w name)) \<Longrightarrow> same_at w w' a"
    and "abspath w' name = abspath w name"
  shows "through_file w' name = through_file w name"
proof -
  have "map_of (nodes w') a = map_of (nodes w) a"
    if "a \<in> set (parents [] (abspath w name))" for a
    using assms(1) [OF that] by (simp add: same_at_def)
  then show ?thesis
    unfolding through_file_def list_ex_iff assms(2) by (auto split: option.splits)
qed

lemma dirFS_same:
  assumes "\<And>k. k \<in> set (abspath w (Join [dir, name]) # parents [] (abspath w (Join [dir, name])))
             \<Longrightarrow> same_at w w' k"
  shows "dirFS w' dir name = dirFS w dir name"
proof -
  have s: "same_at w w' (abspath w (Join [dir, name]))"
    using assms by simp
  have a: "abspath w' p = abspath w p" for p
    using same_at_abspath [OF s] .
  have f: "fault_of w' (Join [dir, name]) = fault_of w (Join [dir, name])"
    using s by (simp add: fault_of_def a same_at_def)
  have n: "node_at w' (Join [dir, name]) = node_at w (Join [dir, name])"
    using s by (simp add: node_at_def a same_at_def)
  have "through_file w' (Join [dir, name]) = through_file w (Join [dir, name])"
    using through_file_same [of w "Join [dir, name]" w'] assms a by simp
  then have m: "missing_err w' (Join [dir, name]) = missing_err w (Join [dir, name])"
    by (simp add: missing_err_def)
  show ?thesis
    unfolding dirFS_def f n m ..
qed

lemma dirFS_same_node:
  assumes s: "same_at w w' (abspath w (Join [dir, name]))"
    and r: "dirFS w dir name = Inr fl"
  shows "dirFS w' dir name = Inr fl"
proof -
  have a: "abspath w' p = abspath w p" for p
    using same_at_abspath [OF s] .
  have f: "fault_of w' (Join [dir, name]) = fault_of w (Join [dir, name])"
    using s by (simp add: fault_of_def a same_at_def)
  have n: "node_at w' (Join [dir, name]) = node_at w (Join [dir, name])"
    using s by (simp add: node_at_def a same_at_def)
  show ?thesis
  proof (cases "fault_of w (Join [dir, name])")
    case (Some e)
    with r show ?thesis by (simp add: dirFS_def)
  next
    case None
    note nofault = None
    show ?thesis
    proof (cases "node_at w (Join [dir, name])")
      case None
      with r nofault show ?thesis by (simp add: dirFS_def)
    next
      case (Some nd)
      with r nofault show ?thesis by (simp add: dirFS_def f n)
    qed
  qed
qed

lemma Join_dot_inventory: "Join [''.'', inventoryFile] = ''inventory.json''"
  by code_simp

lemma fresh_inventory_same:
  assumes "dirFS w' dir objectDeclarationFile = dirFS w dir objectDeclarationFile"
    and "dirFS w' dir ''inventory.json'' = dirFS w dir ''inventory.json''"
  shows "fresh_inventory w' dir = fresh_inventory w dir"
  using assms
  by (simp add: fresh_inventory_def NewObjectReader_def readDeclaration_def readInventory_def
        Join_dot_inventory split: option.splits sum.splits)

lemma readDeclaration_opened:
  assumes "readDeclaration rt = None"
  shows "\<exists>fl. rt objectDeclarationFile = Inr fl"
  using assms by (cases "rt objectDeclarationFile") (simp_all add: readDeclaration_def)

lemma reader_of_written:
  assumes "readDeclaration (dirFS w dir) = None"
    and "dirFS w' dir objectDeclarationFile = dirFS w dir objectDeclarationFile"
    and "fault_of w' (Join [dir, ''inventory.json'']) = None"
    and "node_at w' (Join [dir, ''inventory.json'']) = Some (RegularFile True (InventoryDoc doc))"
  shows "NewObjectReader (dirFS w' dir) = Inr \<lparr> root = dirFS w' dir, Inventory = doc \<rparr>"
proof -
  have "readDeclaration (dirFS w' dir) = None"
    using assms(1,2) by (simp add: readDeclaration_def)
  moreover have "dirFS w' dir ''inventory.json'' = Inr (FsFile (Inr (InventoryDoc doc)))"
    using assms(3,4) by (simp add: dirFS_def)
  ultimately show ?thesis
    by (simp add: NewObjectReader_def readInventory_def ReadInventory_def Join_dot_inventory)
qed

lemma commit_paths_apartD:
  assumes "commit_paths_apart w stage obj nv"
  shows "abspath w (Join [obj_Path obj, objectDeclarationFile])
           \<noteq> abspath w (Join [obj_Path obj, ''inventory.json''])"
    and "\<And>k. k \<in> set ([abspath w (Join [obj_Path obj, objectDeclarationFile]),
                         abspath w (Join [obj_Path obj, ''inventory.json''])]
                        @ parents [] (abspath w (Join [obj_Path obj, objectDeclarationFile]))
                        @ parents [] (abspath w (Join [obj_Path obj, ''inventory.json'']))) \<Longrightarrow>
           k \<noteq> abspath w (Join [obj_Path obj, nv])
           \<and> k \<noteq> abspath w (Join [Join [obj_Path obj, nv], ''inventory.json''])
           \<and> k \<noteq> abspath w (Join [Join [obj_Path obj, nv], ''inventory.json''] @ ''.''
                               @ DigestAlgorithm (inventory obj))
           \<and> k \<noteq> abspath w (Join [obj_Path obj, ''inventory.json''] @ ''.''
                               @ DigestAlgorithm (inventory obj))
           \<and> (StagePath stage \<noteq> [] \<longrightarrow>
                \<not> under (abspath w (StagePath stage)) k
                \<and> \<not> under (abspath w (Join [Join [obj_Path obj, nv], ''content''])) k)"
proof -
  let ?decl = "abspath w (Join [obj_Path obj, objectDeclarationFile])"
  let ?rootinv = "abspath w (Join [obj_Path obj, ''inventory.json''])"
  let ?created = "[abspath w (Join [obj_Path obj, nv]),
                   abspath w (Join [Join [obj_Path obj, nv], ''inventory.json'']),
                   abspath w (Join [Join [obj_Path obj, nv], ''inventory.json''] @ ''.''
                                @ DigestAlgorithm (inventory obj)),
                   abspath w (Join [obj_Path obj, ''inventory.json''] @ ''.''
                                @ DigestAlgorithm (inventory obj))]"
  let ?moved = "if StagePath stage = [] then []
                else [abspath w (StagePath stage),
                      abspath w (Join [Join [obj_Path obj, nv], ''content''])]"
  let ?ok = "\<lambda>k. k \<notin> set ?created \<and> list_all (\<lambda>d. \<not> under d k) ?moved"
  from assms have ne: "?decl \<noteq> ?rootinv"
    and all: "list_all ?ok ([?decl, ?rootinv] @ parents [] ?decl @ parents [] ?rootinv)"
    unfolding commit_paths_apart_def Let_def by blast+
  from ne show "?decl \<noteq> ?rootinv" .
  fix k
  assume "k \<in> set ([?decl, ?rootinv] @ parents [] ?decl @ parents [] ?rootinv)"
  with all have "?ok k"
    unfolding list_all_iff by blast
  then show "k \<noteq> abspath w (Join [obj_Path obj, nv])
           \<and> k \<noteq> abspath w (Join [Join [obj_Path obj, nv], ''inventory.json''])
           \<and> k \<noteq> abspath w (Join [Join [obj_Path obj, nv], ''inventory.json''] @ ''.''
                               @ DigestAlgorithm (inventory obj))
           \<and> k \<noteq> abspath w (Join [obj_Path obj, ''inventory.json''] @ ''.''
                               @ DigestAlgorithm (inventory obj))
           \<and> (StagePath stage \<noteq> [] \<longrightarrow>
                \<not> under (abspath w (StagePath stage)) k
                \<and> \<not> under (abspath w (Join [Join [obj_Path obj, nv], ''content''])) k)"
    by (simp split: if_splits)
qed

text \<open>
  C2.  Let the stage have a parent object, in a layout where the files a commit creates
  or moves are not the object's declaration or root inventory, nor a directory on the
  way to them.  If \<open>Commit\<close> returns an error (that of a failed \<open>nextVersion\<close>
  among them), a fresh \<open>ObjectReader\<close> over the object reads what it read before (the
  head remains the previous version), unless the inventory was written in the version
  directory and the write of the root inventory failed.  If \<open>Commit\<close> returns success
  on an object with a valid declaration, a fresh \<open>ObjectReader\<close> over the object
  opens: it reads the inventory that the stage's object now holds, whose head is the
  version \<open>nextVersion\<close> named; that version is recorded with the state of the
  stage, the user and the message, so \<open>VersionFS\<close> of the new head gives its
  filesystem; and every other version is recorded as it was.
\<close>

theorem Commit_atomic:
  assumes o: "object stage = Some obj" and layout: "commit_layout h w stage obj"
  shows "(\<forall>e w' stage'. Commit h w stage user message = (Returns (Some e), w', stage') \<longrightarrow>
            fresh_inventory w' (obj_Path obj) = fresh_inventory w (obj_Path obj)
            \<or> root_write_failed h w stage user message)
       \<and> (\<forall>w' stage'. Commit h w stage user message = (Returns None, w', stage')
              \<and> readDeclaration (dirFS w (obj_Path obj)) = None \<longrightarrow>
            (\<exists>reader obj' nv v.
               nextVersion h obj = Inr nv
               \<and> NewObjectReader (dirFS w' (obj_Path obj)) = Inr reader
               \<and> object stage' = Some obj' \<and> Inventory reader = inventory obj'
               \<and> Head (Inventory reader) = nv
               \<and> map_of (entries (Versions (Inventory reader))) nv = Some v
               \<and> State v = StageState stage' \<and> User v = user \<and> Message v = message
               \<and> VersionFS reader nv = Inr (version_open reader v)
               \<and> (\<forall>k. k \<noteq> nv \<longrightarrow>
                     map_of (entries (Versions (Inventory reader))) k
                       = map_of (entries (Versions (inventory obj))) k)))"
proof (cases "nextVersion h obj")
  case (Inl err)
  with o have "\<exists>e. Commit h w stage user message = (Returns (Some e), w, stage)"
    by (auto simp: Commit_def commit_steps_def split: option.splits)
  then show ?thesis by auto
next
  case (Inr nv)
  note n = Inr
  from layout n have apart: "commit_paths_apart w stage obj nv"
    by (simp add: commit_layout_def)
  let ?dir = "obj_Path obj"
  let ?alg = "DigestAlgorithm (inventory obj)"
  let ?kd = "abspath w (Join [?dir, objectDeclarationFile])"
  let ?ki = "abspath w (Join [?dir, ''inventory.json''])"
  let ?ks = "abspath w (Join [?dir, ''inventory.json''] @ ''.'' @ ?alg)"
  let ?ks' = "[?kd, ?ki] @ parents [] ?kd @ parents [] ?ki"
  show ?thesis
  proof (intro conjI allI impI)
    fix e w' stage'
    assume c: "Commit h w stage user message = (Returns (Some e), w', stage')"
    show "fresh_inventory w' ?dir = fresh_inventory w ?dir
          \<or> root_write_failed h w stage user message"
    proof (cases "commit_steps h w stage user message")
      case (Inl r)
      with c have r: "commit_steps h w stage user message = Inl (Returns (Some e), w', stage')"
        by (simp add: Commit_def)
      have fr: "same_at w w' k" if "k \<in> set ?ks'" for k
        using commit_steps_frame [of h w stage user message _ w' stage' _ _ _ obj nv k]
          r o n commit_paths_apartD(2) [OF apart that] by blast
      have "dirFS w' ?dir objectDeclarationFile = dirFS w ?dir objectDeclarationFile"
      proof (rule dirFS_same)
        fix k assume "k \<in> set (?kd # parents [] ?kd)"
        then have "k \<in> set ?ks'" by auto
        then show "same_at w w' k" by (rule fr)
      qed
      moreover have "dirFS w' ?dir ''inventory.json'' = dirFS w ?dir ''inventory.json''"
      proof (rule dirFS_same)
        fix k assume "k \<in> set (?ki # parents [] ?ki)"
        then have "k \<in> set ?ks'" by auto
        then show "same_at w w' k" by (rule fr)
      qed
      ultimately show ?thesis
        using fresh_inventory_same by blast
    next
      case (Inr y)
      obtain w1 stage1 obj1 nv1 where y: "y = (w1, stage1, obj1, nv1)" by (cases y)
      from c Inr y have "fst (writeInventory w1 obj1) = Some e"
        by (simp add: Commit_def split: prod.splits)
      with Inr y have "root_write_failed h w stage user message"
        by (simp add: root_write_failed_def)
      then show ?thesis ..
    qed
  next
    fix w' stage'
    assume "Commit h w stage user message = (Returns None, w', stage')
            \<and> readDeclaration (dirFS w ?dir) = None"
    then have c: "Commit h w stage user message = (Returns None, w', stage')"
      and d: "readDeclaration (dirFS w ?dir) = None" by simp_all
    show "\<exists>reader obj' nv v.
            nextVersion h obj = Inr nv
            \<and> NewObjectReader (dirFS w' ?dir) = Inr reader
            \<and> object stage' = Some obj' \<and> Inventory reader = inventory obj'
            \<and> Head (Inventory reader) = nv
            \<and> map_of (entries (Versions (Inventory reader))) nv = Some v
            \<and> State v = StageState stage' \<and> User v = user \<and> Message v = message
            \<and> VersionFS reader nv = Inr (version_open reader v)
            \<and> (\<forall>k. k \<noteq> nv \<longrightarrow>
                  map_of (entries (Versions (Inventory reader))) k
                    = map_of (entries (Versions (inventory obj))) k)"
    proof (cases "commit_steps h w stage user message")
      case (Inl r)
      obtain x wx sx where r: "r = (x, wx, sx)" by (cases r)
      with c Inl commit_steps_Inl [of h w stage user message x wx sx]
      show ?thesis by (simp add: Commit_def)
    next
      case (Inr y)
      obtain w1 stage1 obj1 nv1 where y: "y = (w1, stage1, obj1, nv1)" by (cases y)
      note steps = Inr [unfolded y]
      from c steps have wi: "writeInventory w1 obj1 = (None, w')" and st: "stage' = stage1"
        by (simp_all add: Commit_def split: prod.splits)
      have kd: "?kd \<in> set ?ks'" and ki: "?ki \<in> set ?ks'" by simp_all
      note fr = commit_steps_frame [of h w stage user message _ w1 _ stage1 obj1 nv1 obj nv ?kd]
      from fr steps o n commit_paths_apartD(2) [OF apart kd]
      have s1: "same_at w w1 ?kd" and nv1: "nv1 = nv" and p1: "obj_Path obj1 = ?dir"
        and a1: "DigestAlgorithm (inventory obj1) = ?alg"
        by blast+
      note steps' = steps [unfolded nv1]
      have stage1: "object stage1 = Some obj1" and head: "Head (inventory obj1) = nv"
        using commit_steps_Inr [OF steps'] by simp_all
      from commit_steps_Inr_version(1) [OF steps' o] obtain v where
        v: "map_of (entries (Versions (inventory obj1))) nv = Some v"
        and vs: "State v = StageState stage1" and vu: "User v = user"
        and vm: "Message v = message"
        by blast
      have others: "map_of (entries (Versions (inventory obj1))) k
                      = map_of (entries (Versions (inventory obj))) k" if "k \<noteq> nv" for k
        using commit_steps_Inr_version(2) [OF steps' o that] .
      have ab: "abspath w1 p = abspath w p" for p
        using same_at_abspath [OF s1] .
      from wi have wi': "write_inventory w1 ?dir (inventory obj1) = (None, w')"
        by (simp add: writeInventory_def p1)
      have "same_at w1 w' ?kd"
        using write_inventory_frame [OF wi', of ?kd] commit_paths_apartD(1) [OF apart]
          commit_paths_apartD(2) [OF apart kd] ab a1
        by simp
      with s1 have sd: "same_at w w' ?kd" by (rule same_at_trans)
      from readDeclaration_opened [OF d] obtain fl where
        "dirFS w ?dir objectDeclarationFile = Inr fl" ..
      with dirFS_same_node [OF sd]
      have decl: "dirFS w' ?dir objectDeclarationFile = dirFS w ?dir objectDeclarationFile"
        by simp
      have "?ki \<noteq> ?ks"
        using commit_paths_apartD(2) [OF apart ki] by simp
      then have "abspath w1 (Join [?dir, ''inventory.json''])
          \<noteq> abspath w1 (Join [?dir, ''inventory.json''] @ ''.'' @ DigestAlgorithm (inventory obj1))"
        using ab a1 by simp
      from write_inventory_done [OF wi' this] reader_of_written [OF d decl]
      have rd: "NewObjectReader (dirFS w' ?dir)
                  = Inr \<lparr> root = dirFS w' ?dir, Inventory = inventory obj1 \<rparr>"
        by blast
      let ?reader = "\<lparr> root = dirFS w' ?dir, Inventory = inventory obj1 \<rparr>"
      have vfs: "VersionFS ?reader nv = Inr (version_open ?reader v)"
        using v by (simp add: VersionFS_def)
      have "nextVersion h obj = Inr nv
            \<and> NewObjectReader (dirFS w' ?dir) = Inr ?reader
            \<and> object stage' = Some obj1 \<and> Inventory ?reader = inventory obj1
            \<and> Head (Inventory ?reader) = nv
            \<and> map_of (entries (Versions (Inventory ?reader))) nv = Some v
            \<and> State v = StageState stage' \<and> User v = user \<and> Message v = message
            \<and> VersionFS ?reader nv = Inr (version_open ?reader v)
            \<and> (\<forall>k. k \<noteq> nv \<longrightarrow>
                  map_of (entries (Versions (Inventory ?reader))) k
                    = map_of (entries (Versions (inventory obj))) k)"
        using n rd stage1 st head v vs vu vm vfs others by simp
      then show ?thesis by blast
    qed
  qed
qed

theorem Commit_atomic_witness:
  "object staged_stage = Some example_object
   \<and> commit_layout example_helpers unwritable_world staged_stage example_object
   \<and> commit_layout example_helpers (staged_world True) staged_stage example_object
   \<and> commit_layout failing_helpers (staged_world True) staged_stage example_object
   \<and> fst (Commit example_helpers unwritable_world staged_stage example_user ''add'')
        = Returns (Some (PathError ''open'' ''/obj/v2/inventory.json'' ErrPermission))
   \<and> \<not> root_write_failed example_helpers unwritable_world staged_stage example_user ''add''
   \<and> fresh_inventory
        (fst (snd (Commit example_helpers unwritable_world staged_stage example_user ''add'')))
        ''/obj'' = fresh_inventory unwritable_world ''/obj''
   \<and> fst (Commit failing_helpers (staged_world True) staged_stage example_user ''add'')
        = Returns (Some (ErrorString ''no next version''))
   \<and> \<not> root_write_failed failing_helpers (staged_world True) staged_stage example_user ''add''
   \<and> fresh_inventory
        (fst (snd (Commit failing_helpers (staged_world True) staged_stage example_user ''add'')))
        ''/obj'' = fresh_inventory (staged_world True) ''/obj''
   \<and> fst (Commit example_helpers (staged_world True) staged_stage example_user ''add'')
        = Returns None
   \<and> readDeclaration (dirFS (staged_world True) ''/obj'') = None
   \<and> (\<exists>reader v.
         NewObjectReader
           (dirFS (fst (snd (Commit example_helpers (staged_world True) staged_stage
                               example_user ''add''))) ''/obj'') = Inr reader
         \<and> Head (Inventory reader) = ''v2''
         \<and> map_of (entries (Versions (Inventory reader))) ''v2'' = Some v
         \<and> User v = example_user \<and> Message v = ''add''
         \<and> VersionFS reader ''v2'' = Inr (version_open reader v)
         \<and> map_of (entries (Versions (Inventory reader))) ''v1'' = Some example_version)"
proof -
  let ?bad = "Commit example_helpers unwritable_world staged_stage example_user ''add''"
  let ?none = "Commit failing_helpers (staged_world True) staged_stage example_user ''add''"
  let ?good = "Commit example_helpers (staged_world True) staged_stage example_user ''add''"
  let ?e = "PathError ''open'' ''/obj/v2/inventory.json'' ErrPermission"
  let ?e' = "ErrorString ''no next version''"
  have o: "object staged_stage = Some example_object" by code_simp
  have n: "nextVersion example_helpers example_object = Inr ''v2''" by code_simp
  have p: "obj_Path example_object = ''/obj''" by code_simp
  have a1: "commit_layout example_helpers unwritable_world staged_stage example_object"
    by code_simp
  have a2: "commit_layout example_helpers (staged_world True) staged_stage example_object"
    by code_simp
  have a3: "commit_layout failing_helpers (staged_world True) staged_stage example_object"
    by code_simp
  have b: "fst ?bad = Returns (Some ?e)" by code_simp
  then have b': "?bad = (Returns (Some ?e), fst (snd ?bad), snd (snd ?bad))"
    by (metis prod.collapse)
  have nf: "\<not> root_write_failed example_helpers unwritable_world staged_stage example_user ''add''"
    by code_simp
  have f: "fst ?none = Returns (Some ?e')" by code_simp
  then have f': "?none = (Returns (Some ?e'), fst (snd ?none), snd (snd ?none))"
    by (metis prod.collapse)
  have nf': "\<not> root_write_failed failing_helpers (staged_world True) staged_stage example_user ''add''"
    by code_simp
  have g: "fst ?good = Returns None" by code_simp
  then have g': "?good = (Returns None, fst (snd ?good), snd (snd ?good))"
    by (metis prod.collapse)
  have d: "readDeclaration (dirFS (staged_world True) ''/obj'') = None" by code_simp
  have v1: "map_of (entries (Versions (inventory example_object))) ''v1'' = Some example_version"
    by code_simp
  from Commit_atomic [OF o a1, of example_user "''add''"] b' nf
  have r1: "fresh_inventory (fst (snd ?bad)) ''/obj'' = fresh_inventory unwritable_world ''/obj''"
    unfolding p by blast
  from Commit_atomic [OF o a3, of example_user "''add''"] f' nf'
  have r3: "fresh_inventory (fst (snd ?none)) ''/obj'' = fresh_inventory (staged_world True) ''/obj''"
    unfolding p by blast
  from Commit_atomic [OF o a2, of example_user "''add''"] g' d
  obtain reader obj' nv v where
    "nextVersion example_helpers example_object = Inr nv"
    and rd: "NewObjectReader (dirFS (fst (snd ?good)) ''/obj'') = Inr reader"
    and hd: "Head (Inventory reader) = nv"
    and vv: "map_of (entries (Versions (Inventory reader))) nv = Some v"
    and vu: "User v = example_user" and vm: "Message v = ''add''"
    and vf: "VersionFS reader nv = Inr (version_open reader v)"
    and ot: "\<forall>k. k \<noteq> nv \<longrightarrow>
               map_of (entries (Versions (Inventory reader))) k
                 = map_of (entries (Versions (inventory example_object))) k"
    unfolding p by blast
  with n have nv: "nv = ''v2''" by simp
  from ot nv v1 have old: "map_of (entries (Versions (Inventory reader))) ''v1'' = Some example_version"
    by simp
  have r2: "\<exists>reader v.
         NewObjectReader (dirFS (fst (snd ?good)) ''/obj'') = Inr reader
         \<and> Head (Inventory reader) = ''v2''
         \<and> map_of (entries (Versions (Inventory reader))) ''v2'' = Some v
         \<and> User v = example_user \<and> Message v = ''add''
         \<and> VersionFS reader ''v2'' = Inr (version_open reader v)
         \<and> map_of (entries (Versions (Inventory reader))) ''v1'' = Some example_version"
  proof (intro exI conjI)
    show "NewObjectReader (dirFS (fst (snd ?good)) ''/obj'') = Inr reader" by (rule rd)
    show "Head (Inventory reader) = ''v2''" using hd unfolding nv .
    show "map_of (entries (Versions (Inventory reader))) ''v2'' = Some v" using vv unfolding nv .
    show "User v = example_user" by (rule vu)
    show "Message v = ''add''" by (rule vm)
    show "VersionFS reader ''v2'' = Inr (version_open reader v)" using vf unfolding nv .
    show "map_of (entries (Versions (Inventory reader))) ''v1'' = Some example_version"
      by (rule old)
  qed
  from o a1 a2 a3 b nf r1 f nf' r3 g d r2 show ?thesis by blast
qed

section \<open>Properties of the validator\<close>

lemma sendErr_uncancelled:
  "budget s = None \<Longrightarrow> sendErr e s = (True, s\<lparr>emitted := emitted s @ [e]\<rparr>)"
  by (simp add: sendErr_def)

lemma forward_uncancelled:
  "budget s = None \<Longrightarrow> forward es s = (True, s\<lparr>emitted := emitted s @ es\<rparr>)"
proof (induction es arbitrary: s)
  case Nil
  then show ?case by simp
next
  case (Cons e es)
  let ?s = "s\<lparr>emitted := emitted s @ [e]\<rparr>"
  have "budget ?s = None" using Cons.prems by simp
  from Cons.IH [OF this] sendErr_uncancelled [OF Cons.prems, of e]
  show ?case by simp
qed

lemma forward_each_uncancelled:
  "budget s = None \<Longrightarrow>
   forward_each f xs s = (True, s\<lparr>emitted := emitted s @ concat (map f xs)\<rparr>)"
proof (induction xs arbitrary: s)
  case Nil
  then show ?case by simp
next
  case (Cons x xs)
  let ?s = "s\<lparr>emitted := emitted s @ f x\<rparr>"
  have "budget ?s = None" using Cons.prems by simp
  from Cons.IH [OF this] forward_uncancelled [OF Cons.prems, of "f x"]
  show ?case by simp
qed

lemma later_phases_uncancelled:
  assumes "budget s = None"
  shows "emitted (later_phases h w obj s) = emitted s @ later_errors h w obj"
proof -
  obtain vDirs err where v: "versionDirs h w obj = (vDirs, err)"
    by (cases "versionDirs h w obj")
  define s2 where "s2 = s\<lparr>emitted := emitted s @ (case err of Some e \<Rightarrow> [e] | None \<Rightarrow> [])\<rparr>"
  have b2: "budget s2 = None" using assms by (simp add: s2_def)
  have first: "(case err of Some e \<Rightarrow> sendErr e s | None \<Rightarrow> (True, s)) = (True, s2)"
    using assms by (cases err) (simp_all add: s2_def sendErr_uncancelled)
  define s3 where "s3 = s2\<lparr>emitted := emitted s2 @ concat (map (validateVerDir h w obj) vDirs)\<rparr>"
  have b3: "budget s3 = None" using b2 by (simp add: s3_def)
  have second: "forward_each (validateVerDir h w obj) vDirs s2 = (True, s3)"
    using forward_each_uncancelled [OF b2] by (simp add: s3_def)
  let ?man = "checksum_stream h w (Manifest (inventory obj)) (obj_Path obj)
                (DigestAlgorithm (inventory obj))"
  define s4 where "s4 = s3\<lparr>emitted := emitted s3 @ ?man\<rparr>"
  have b4: "budget s4 = None" using b3 by (simp add: s4_def)
  have third: "forward ?man s3 = (True, s4)"
    using forward_uncancelled [OF b3] by (simp add: s4_def)
  let ?fix = "\<lambda>(alg, manifest). checksum_stream h w manifest (obj_Path obj) alg"
  have fourth: "forward_each ?fix (Fixity (inventory obj)) s4
      = (True, s4\<lparr>emitted := emitted s4 @ concat (map ?fix (Fixity (inventory obj)))\<rparr>)"
    by (rule forward_each_uncancelled [OF b4])
  have "later_phases h w obj s
      = s4\<lparr>emitted := emitted s4 @ concat (map ?fix (Fixity (inventory obj)))\<rparr>"
    unfolding later_phases_def Let_def v using first second third fourth by simp
  then show ?thesis
    by (simp add: later_errors_def v s4_def s3_def s2_def)
qed

text \<open>
  C3, as the code has it.  When the context is not cancelled, \<open>Validate\<close> emits every
  structural error of the root inventory, and if there is one it stops there (the code
  says: do not continue if the inventory is broken).  Only a root inventory with no
  structural error is followed by the later phases (version directories, manifest
  checksum, fixity checksum), whose errors are all emitted, one phase after the other,
  without ending the stream.
\<close>

theorem Validate_uncancelled:
  "Object_Validate h w obj None =
     (if validateStructure h (inventory obj) \<noteq> []
      then validateStructure h (inventory obj)
      else later_errors h w obj)"
proof -
  let ?s0 = "\<lparr> emitted = [], budget = None \<rparr>"
  let ?inv = "validateStructure h (inventory obj)"
  have f: "forward ?inv ?s0 = (True, ?s0\<lparr>emitted := ?inv\<rparr>)"
    using forward_uncancelled [of ?s0 ?inv] by simp
  show ?thesis
  proof (cases "?inv = []")
    case True
    have "emitted (later_phases h w obj ?s0) = later_errors h w obj"
      using later_phases_uncancelled [of ?s0 h w obj] by simp
    with True f show ?thesis by (simp add: Object_Validate_def)
  next
    case False
    with f show ?thesis by (simp add: Object_Validate_def Let_def)
  qed
qed

text \<open>
  The claim C3 as the specification states it fails: the root inventory of this object
  has no id, its content does not match its manifest, and \<open>Validate\<close>, not cancelled,
  emits the one structural error and closes, without the checksum error that the
  manifest phase has to report.
\<close>

theorem Validate_stops_after_structure:
  "Object_Validate mismatch_helpers example_world broken_object None = [NewErr InvIDErr]
   \<and> checksum_stream mismatch_helpers example_world (Manifest (inventory broken_object))
        (obj_Path broken_object) (DigestAlgorithm (inventory broken_object))
       = [NewErr ContentChecksumErr]
   \<and> NewErr ContentChecksumErr \<notin> set (Object_Validate mismatch_helpers example_world broken_object None)"
  by code_simp

lemma receiver_ready_shorter:
  "receiver_ready d (sent @ extra) \<Longrightarrow> receiver_ready d sent"
  by (cases d) (simp_all add: receiver_ready_def)

lemma coordinate_cancelled:
  "k < length rs \<Longrightarrow>
   receives d (length sent + Suc (length (checksum_errors (take k rs)))) \<Longrightarrow>
   coordinate (Some (i + k)) d i sent rs
     = Closed (sent @ checksum_errors (take k rs) @ [NewErr CtxCanceledErr])"
proof (induction rs arbitrary: k i sent)
  case Nil
  then show ?case by simp
next
  case (Cons r rs)
  show ?case
  proof (cases k)
    case 0
    have "receiver_ready d sent"
      using Cons.prems(2) 0 by (cases d) (simp_all add: receives_def receiver_ready_def checksum_errors_def)
    with 0 show ?thesis by (simp add: ctx_done_def checksum_errors_def)
  next
    case (Suc k')
    have nd: "\<not> ctx_done (Some (i + k)) i" using Suc by (simp add: ctx_done_def)
    have k': "k' < length rs" using Cons.prems(1) Suc by simp
    have idx: "i + k = Suc i + k'" using Suc by simp
    let ?e = "checksum_errors [r]"
    have ce: "checksum_errors (take k (r # rs)) = ?e @ checksum_errors (take k' rs)"
      using Suc by (simp add: checksum_errors_def)
    have rec: "receives d (length (sent @ ?e) + Suc (length (checksum_errors (take k' rs))))"
      using Cons.prems(2) ce by (simp add: ac_simps)
    have ih: "coordinate (Some (Suc i + k')) d (Suc i) (sent @ ?e) rs
        = Closed ((sent @ ?e) @ checksum_errors (take k' rs) @ [NewErr CtxCanceledErr])"
      using Cons.IH [OF k' rec] .
    show ?thesis
    proof (cases "?e = []")
      case True
      then have "coordinate (Some (i + k)) d i sent (r # rs)
          = coordinate (Some (i + k)) d (Suc i) sent rs"
        using nd by (auto simp: checksum_errors_def split: option.splits if_splits)
      with ih True ce idx show ?thesis by simp
    next
      case False
      then obtain e where e: "?e = [e]"
        by (auto simp: checksum_errors_def split: option.splits if_splits)
      have "receiver_ready d sent"
        using rec e by (cases d) (simp_all add: receives_def receiver_ready_def)
      then have "coordinate (Some (i + k)) d i sent (r # rs)
          = coordinate (Some (i + k)) d (Suc i) (sent @ [e]) rs"
        using nd e by (auto simp: checksum_errors_def split: option.splits if_splits)
      with ih e ce idx show ?thesis by simp
    qed
  qed
qed

text \<open>
  C9, as the code has it.  When the context is cancelled while the digester still
  delivers results (after \<open>k\<close> of them, with more to come), and the consumer keeps
  receiving, the stream delivers the errors of the first \<open>k\<close> results, then exactly
  one \<open>CtxCanceledErr\<close>, and closes: no checksum error follows the cancellation.
\<close>

theorem Validate_cancelled_stream:
  assumes "k < length results"
    and "receives demand (Suc (length (checksum_errors (take k results))))"
  shows "ContentMap_Validate results (Some k) demand
     = Closed (checksum_errors (take k results) @ [NewErr CtxCanceledErr])"
  using coordinate_cancelled [of k results demand "[]" 0] assms
  by (simp add: ContentMap_Validate_def)

theorem Validate_cancelled_stream_witness:
  "(1::nat) < length bad_results
   \<and> receives None (Suc (length (checksum_errors (take 1 bad_results))))
   \<and> ContentMap_Validate bad_results (Some 1) None
       = Closed [NewErr ContentChecksumErr, NewErr CtxCanceledErr]"
proof -
  have a: "(1::nat) < length bad_results" by code_simp
  have b: "receives None (Suc (length (checksum_errors (take 1 bad_results))))"
    by (simp add: receives_def)
  have c: "checksum_errors (take 1 bad_results) = [NewErr ContentChecksumErr]" by code_simp
  from Validate_cancelled_stream [OF a b] c a b show ?thesis by simp
qed

text \<open>
  The claim C9 as the specification states it fails for a consumer that stops receiving
  when it cancels, as \<open>Object.Validate\<close> does with this very stream: the send of the
  terminal error is a plain channel send, the goroutine blocks in it, and the stream
  neither delivers \<open>CtxCanceledErr\<close> nor closes.
\<close>

theorem Validate_cancelled_blocks:
  "ContentMap_Validate bad_results (Some 1) (Some 1) = Blocked [NewErr ContentChecksumErr]"
  by code_simp

end
